theory Spec2Isabelle
  imports Complex_Main "HOL-Library.Word"
begin

chapter \<open>Definitions\<close>

section \<open>Conventions shared by the programs\<close>

text \<open>
  The repository is a set of standalone C++ programs. A \<open>float\<close> is read as the real
  number it stands for, and a float operation gives the exact result rounded to the
  format (\<open>binary32\<close> below); only the curve arithmetic of the Bezier program (\<open>bezier\<close>
  and \<open>count_bezier_vertices\<close>) is kept exact. The infinities and the values that are
  not a number have no counterpart. \<open>int\<close> and \<open>long\<close> are mathematical integers, with
  the places where C++ leaves the behaviour undefined written out as a \<open>fault\<close>:
  a read of a \<open>std::vector\<close> past its end, a signed overflow, a conversion of a float
  that does not fit an \<open>int\<close>. A float division by zero is reported as a \<open>fault\<close> as
  well: its result is infinite or not a number, and the function that divides has no
  value to return, though the program goes on (\<open>next_state\<close> below). A function that
  may run into one of them returns \<open>fault + 'a\<close>, with \<open>Inl\<close> the fault.
\<close>

datatype fault = OutOfRange | DivisionByZero | SignedOverflow | ConversionOverflow

definition then_do :: "fault + 'a \<Rightarrow> ('a \<Rightarrow> fault + 'b) \<Rightarrow> fault + 'b" where
  "then_do m f = (case m of Inl e \<Rightarrow> Inl e | Inr v \<Rightarrow> f v)"

text \<open>A \<open>for\<close> loop over the values \<open>as\<close>, its body threading the state \<open>s\<close>.\<close>

primrec for_each :: "'a list \<Rightarrow> ('a \<Rightarrow> 's \<Rightarrow> fault + 's) \<Rightarrow> 's \<Rightarrow> fault + 's" where
  "for_each [] body s = Inr s"
| "for_each (a # as) body s = then_do (body a s) (for_each as body)"

text \<open>\<open>xs[i]\<close> of a \<open>std::vector\<close>, with the index a signed integer.\<close>

definition vector_at :: "'a list \<Rightarrow> int \<Rightarrow> fault + 'a" where
  "vector_at xs i = (if 0 \<le> i \<and> i < int (length xs) then Inr (xs ! nat i) else Inl OutOfRange)"

definition INT_MAX :: int where
  "INT_MAX = 2147483647"

definition INT_MIN :: int where
  "INT_MIN = - 2147483648"

text \<open>The conversion \<open>(int) r\<close> of a float: truncation towards zero, undefined out of range.\<close>

definition trunc_to_zero :: "real \<Rightarrow> int" where
  "trunc_to_zero r = (if 0 \<le> r then \<lfloor>r\<rfloor> else \<lceil>r\<rceil>)"

definition to_int :: "real \<Rightarrow> fault + int" where
  "to_int r = (if INT_MIN \<le> trunc_to_zero r \<and> trunc_to_zero r \<le> INT_MAX then Inr (trunc_to_zero r)
               else Inl ConversionOverflow)"

text \<open>\<open>a / b\<close> in the curve arithmetic of the Bezier program.\<close>

definition fdiv :: "real \<Rightarrow> real \<Rightarrow> fault + real" where
  "fdiv a b = (if b = 0 then Inl DivisionByZero else Inr (a / b))"

text \<open>
  The rounding of a real number to the format of \<open>float\<close>, IEEE 754 binary32, in the
  default mode: to the nearest number of the format, a tie going to the one with the
  even significand. The format has 24 significant bits, so the numbers near \<open>x\<close> are the
  multiples of \<open>2 ^ e\<close> with \<open>e = \<lfloor>log\<^sub>2 |x|\<rfloor> - 23\<close>, and of \<open>2 ^ - 149\<close> where
  that is smaller (gradual underflow). The overflow to infinity at \<open>2 ^ 128\<close> is left
  out: the hypotheses of what is proved below keep every value far under it.
\<close>

definition round_even :: "real \<Rightarrow> int" where
  "round_even y =
     (let f = \<lfloor>y\<rfloor>
      in if y - real_of_int f < 1 / 2 then f
         else if 1 / 2 < y - real_of_int f then f + 1
         else if even f then f else f + 1)"

definition binary32 :: "real \<Rightarrow> real" where
  "binary32 x =
     (if x = 0 then 0
      else let e = max (\<lfloor>log 2 \<bar>x\<bar>\<rfloor> - 23) (- 149)
           in real_of_int (round_even (x / 2 powr real_of_int e)) * 2 powr real_of_int e)"

text \<open>
  The conversion of an \<open>int\<close> to \<open>float\<close> and the float operations \<open>a + b\<close>, \<open>a - b\<close>,
  \<open>a * b\<close>, \<open>a / b\<close> and \<open>sqrt(a)\<close>, each rounded once.
\<close>

definition float_of_int :: "int \<Rightarrow> real" where
  "float_of_int i = binary32 (real_of_int i)"

definition float_add :: "real \<Rightarrow> real \<Rightarrow> real" where
  "float_add a b = binary32 (a + b)"

definition float_sub :: "real \<Rightarrow> real \<Rightarrow> real" where
  "float_sub a b = binary32 (a - b)"

definition float_mul :: "real \<Rightarrow> real \<Rightarrow> real" where
  "float_mul a b = binary32 (a * b)"

definition float_div :: "real \<Rightarrow> real \<Rightarrow> fault + real" where
  "float_div a b = (if b = 0 then Inl DivisionByZero else Inr (binary32 (a / b)))"

definition float_sqrt :: "real \<Rightarrow> real" where
  "float_sqrt a = binary32 (sqrt a)"

text \<open>\<open>struct vec2 { float x; float y; }\<close>, declared alike in the Bezier and isolines programs.\<close>

record vec2 =
  vec2_x :: real
  vec2_y :: real


section \<open>The Bezier program (2022/practice3/main.cpp)\<close>

record vertex =
  position :: vec2
  color :: "8 word list"

text \<open>
  One pass of the inner loop of \<open>bezier\<close>, for the round \<open>k\<close>: \<open>i\<close> runs while
  \<open>i + k + 1 < vertices.size()\<close>, and the two coordinates of \<open>points[i]\<close> are assigned
  one after the other, in place.
\<close>

definition bezier_assign :: "real \<Rightarrow> nat \<Rightarrow> vec2 list \<Rightarrow> vec2 list" where
  "bezier_assign t i points =
     (let points1 = points[i := (points ! i)\<lparr>vec2_x :=
                      vec2_x (points ! i) * (1 - t) + vec2_x (points ! (i + 1)) * t\<rparr>];
          points2 = points1[i := (points1 ! i)\<lparr>vec2_y :=
                      vec2_y (points1 ! i) * (1 - t) + vec2_y (points1 ! (i + 1)) * t\<rparr>]
      in points2)"

definition bezier_round :: "real \<Rightarrow> nat \<Rightarrow> nat \<Rightarrow> vec2 list \<Rightarrow> vec2 list" where
  "bezier_round t n k points = fold (bezier_assign t) [0..<n - (k + 1)] points"

text \<open>
  \<open>bezier\<close>: the vector \<open>points\<close> has the size of \<open>vertices\<close>; the rounds \<open>k\<close> run while
  \<open>k + 1 < vertices.size()\<close>; the result is \<open>points[0]\<close>, read without a check.
\<close>

definition bezier :: "vertex list \<Rightarrow> real \<Rightarrow> fault + vec2" where
  "bezier vertices t =
     (let n = length vertices;
          points = fold (bezier_round t n) [0..<n - 1] (map position vertices)
      in vector_at points 0)"

text \<open>
  \<open>count_bezier_vertices\<close>: \<open>vertices_bezier\<close> is emptied, then receives one vertex for
  each \<open>i\<close> from \<open>0\<close> below \<open>quality\<close>, sampled at \<open>1.f * i / (quality - 1)\<close>.
\<close>

definition count_bezier_vertices :: "int \<Rightarrow> vertex list \<Rightarrow> fault + vertex list" where
  "count_bezier_vertices quality vertices =
     for_each (map int [0..<nat quality])
       (\<lambda>i vertices_bezier.
          then_do (fdiv (1 * real_of_int i) (real_of_int (quality - 1))) (\<lambda>t.
          then_do (bezier vertices t) (\<lambda>new_vertex.
          Inr (vertices_bezier @ [\<lparr>position = new_vertex, color = [0, 0, 0, 0]\<rparr>]))))
       []"

text \<open>
  The variables of \<open>main\<close> that outlive an iteration of the event loop, and the contents
  of the two vertex buffers.
\<close>

record app =
  running :: bool
  width :: int
  height :: int
  vertices :: "vertex list"
  quality :: int
  vertices_bezier :: "vertex list"
  vbo :: "vertex list"
  vbo_bezier :: "vertex list"

definition update_vbos :: "app \<Rightarrow> fault + app" where
  "update_vbos s =
     (let s1 = s\<lparr>vbo := vertices s\<rparr>
      in then_do (count_bezier_vertices (quality s1) (vertices s1)) (\<lambda>vb.
         Inr (s1\<lparr>vertices_bezier := vb, vbo_bezier := vb\<rparr>)))"

datatype mouse_button = SDL_BUTTON_LEFT | SDL_BUTTON_RIGHT | SDL_BUTTON_other nat

datatype keycode = SDLK_LEFT | SDLK_RIGHT | SDLK_other int

datatype event =
    SDL_QUIT
  | SDL_WINDOWEVENT_RESIZED int int
  | SDL_WINDOWEVENT_other
  | SDL_MOUSEBUTTONDOWN mouse_button int int
  | SDL_KEYDOWN keycode
  | SDL_other

text \<open>The body of the \<open>switch\<close> over the event type, for one polled event.\<close>

fun on_event :: "event \<Rightarrow> app \<Rightarrow> fault + app" where
  "on_event SDL_QUIT s = Inr (s\<lparr>running := False\<rparr>)"
| "on_event (SDL_WINDOWEVENT_RESIZED w h) s = Inr (s\<lparr>width := w, height := h\<rparr>)"
| "on_event SDL_WINDOWEVENT_other s = Inr s"
| "on_event (SDL_MOUSEBUTTONDOWN b mouse_x mouse_y) s =
     (if b = SDL_BUTTON_LEFT then
        update_vbos (s\<lparr>vertices := vertices s @
          [\<lparr>position = \<lparr>vec2_x = float_mul 1 (float_of_int mouse_x),
                         vec2_y = float_mul 1 (float_of_int mouse_y)\<rparr>,
            color = [20, 20, 20, 20]\<rparr>]\<rparr>)
      else if b = SDL_BUTTON_RIGHT then
        (if length (vertices s) \<noteq> 0 then update_vbos (s\<lparr>vertices := butlast (vertices s)\<rparr>)
         else Inr s)
      else Inr s)"
| "on_event (SDL_KEYDOWN keysym) s =
     (if keysym = SDLK_LEFT then
        (if quality s > 1 then update_vbos (s\<lparr>quality := quality s - 1\<rparr>) else Inr s)
      else if keysym = SDLK_RIGHT then
        (if quality s = INT_MAX then Inl SignedOverflow
         else update_vbos (s\<lparr>quality := quality s + 1\<rparr>))
      else Inr s)"
| "on_event SDL_other s = Inr s"

text \<open>The events polled over the life of the program, handled in order.\<close>

definition run :: "event list \<Rightarrow> app \<Rightarrow> fault + app" where
  "run events s = for_each events on_event s"

text \<open>The state in which \<open>main\<close> enters the event loop, for a window of the given size.\<close>

definition initial_vertices :: "vertex list" where
  "initial_vertices =
     [\<lparr>position = \<lparr>vec2_x = 100, vec2_y = 100\<rparr>, color = [20, 20, 20, 20]\<rparr>,
      \<lparr>position = \<lparr>vec2_x = 100, vec2_y = 600\<rparr>, color = [20, 20, 20, 20]\<rparr>,
      \<lparr>position = \<lparr>vec2_x = 600, vec2_y = 100\<rparr>, color = [20, 20, 20, 20]\<rparr>]"

definition main_start :: "int \<Rightarrow> int \<Rightarrow> fault + app" where
  "main_start w h =
     then_do (count_bezier_vertices 30 initial_vertices) (\<lambda>vb.
     Inr \<lparr>running = True, width = w, height = h, vertices = initial_vertices, quality = 30,
          vertices_bezier = vb, vbo = initial_vertices, vbo_bezier = vb\<rparr>)"

text \<open>
  The assignments a handler makes to the variables of \<open>main\<close> before it calls
  \<open>update_vbos\<close>, if it does.
\<close>

fun assigned :: "event \<Rightarrow> app \<Rightarrow> app" where
  "assigned SDL_QUIT s = s\<lparr>running := False\<rparr>"
| "assigned (SDL_WINDOWEVENT_RESIZED w h) s = s\<lparr>width := w, height := h\<rparr>"
| "assigned SDL_WINDOWEVENT_other s = s"
| "assigned (SDL_MOUSEBUTTONDOWN b mouse_x mouse_y) s =
     (if b = SDL_BUTTON_LEFT then
        s\<lparr>vertices := vertices s @
          [\<lparr>position = \<lparr>vec2_x = float_mul 1 (float_of_int mouse_x),
                         vec2_y = float_mul 1 (float_of_int mouse_y)\<rparr>,
            color = [20, 20, 20, 20]\<rparr>]\<rparr>
      else if b = SDL_BUTTON_RIGHT then
        (if length (vertices s) \<noteq> 0 then s\<lparr>vertices := butlast (vertices s)\<rparr> else s)
      else s)"
| "assigned (SDL_KEYDOWN keysym) s =
     (if keysym = SDLK_LEFT then
        (if quality s > 1 then s\<lparr>quality := quality s - 1\<rparr> else s)
      else if keysym = SDLK_RIGHT then s\<lparr>quality := quality s + 1\<rparr>
      else s)"
| "assigned SDL_other s = s"

text \<open>
  The state in which the loop goes on after an event. Either the handler returns as
  \<open>on_event\<close> has it. Or \<open>update_vbos\<close> is called with \<open>quality = 1\<close> and at least one
  control point: the sample parameter is then \<open>0 / 0\<close>, which is no undefined behaviour
  for floats but a value that is not a number, and the program goes on with the
  variables as assigned and one vertex in \<open>vertices_bezier\<close>. The coordinates of that
  vertex are not numbers unless there is a single control point, so any vertex is
  admitted for it.
\<close>

inductive next_state :: "event \<Rightarrow> app \<Rightarrow> app \<Rightarrow> bool" where
  returns: "on_event e s = Inr s' \<Longrightarrow> next_state e s s'"
| not_a_number:
    "on_event e s = Inl DivisionByZero \<Longrightarrow> vertices (assigned e s) \<noteq> [] \<Longrightarrow>
     next_state e s ((assigned e s)\<lparr>vbo := vertices (assigned e s),
                                   vertices_bezier := [v], vbo_bezier := [v]\<rparr>)"

text \<open>The states the event loop can be in.\<close>

inductive reachable :: "app \<Rightarrow> bool" where
  start: "main_start w h = Inr s \<Longrightarrow> reachable s"
| step: "reachable s \<Longrightarrow> next_state e s s' \<Longrightarrow> reachable s'"

text \<open>
  De Casteljau's construction, as it is defined: level \<open>0\<close> is the control polygon, the
  \<open>i\<close>-th point of level \<open>r + 1\<close> divides the segment between the \<open>i\<close>-th and the next point
  of level \<open>r\<close> in the ratio \<open>t\<close>, and the point of the curve is the single point of the
  last level.
\<close>

definition lerp :: "real \<Rightarrow> vec2 \<Rightarrow> vec2 \<Rightarrow> vec2" where
  "lerp t p q = \<lparr>vec2_x = vec2_x p * (1 - t) + vec2_x q * t,
                vec2_y = vec2_y p * (1 - t) + vec2_y q * t\<rparr>"

fun de_casteljau_level :: "real \<Rightarrow> vec2 list \<Rightarrow> nat \<Rightarrow> nat \<Rightarrow> vec2" where
  "de_casteljau_level t ps 0 i = ps ! i"
| "de_casteljau_level t ps (Suc r) i =
     lerp t (de_casteljau_level t ps r i) (de_casteljau_level t ps r (Suc i))"

definition de_casteljau :: "vec2 list \<Rightarrow> real \<Rightarrow> vec2" where
  "de_casteljau ps t = de_casteljau_level t ps (length ps - 1) 0"


section \<open>The isolines program (unnamed/part\_001)\<close>

text \<open>
  \<open>for (int i = 0; i < n; i++)\<close> with \<open>n\<close> of a wider type than \<open>int\<close>: the counter
  overflows when the loop is to run beyond \<open>INT_MAX\<close>.
\<close>

definition for_int :: "int \<Rightarrow> (int \<Rightarrow> 's \<Rightarrow> fault + 's) \<Rightarrow> 's \<Rightarrow> fault + 's" where
  "for_int n body s =
     (if n \<le> INT_MAX then for_each [0..n - 1] body s
      else then_do (for_each [0..INT_MAX] body s) (\<lambda>s'. Inl SignedOverflow))"

text \<open>The conversion of a \<open>long\<close> to an \<open>int\<close>: the value modulo \<open>2 ^ 32\<close>, read as signed.\<close>

definition narrow_int :: "int \<Rightarrow> int" where
  "narrow_int l = sint (word_of_int l :: 32 word)"

text \<open>\<open>struct colour { std::uint8_t color[4]; }\<close>; only \<open>color[0]\<close> is ever read.\<close>

record colour =
  colour_color :: "8 word \<times> 8 word \<times> 8 word \<times> 8 word"

definition color0 :: "colour \<Rightarrow> 8 word" where
  "color0 c = fst (colour_color c)"

definition coeff :: "real \<Rightarrow> real \<Rightarrow> int \<Rightarrow> fault + real" where
  "coeff val1 val2 border = float_div (float_sub (float_of_int border) val1) (float_sub val2 val1)"

text \<open>
  The three containers \<open>create_isolines\<close> and \<open>add_new_point\<close> work on: the two output
  vectors and the local \<open>indices_map\<close>, to which nothing is ever added.
\<close>

record isolines =
  isopoints :: "vec2 list"
  iso_indices :: "32 word list"
  indices_map :: "int \<times> int \<rightharpoonup> int"

definition map_count :: "('k \<rightharpoonup> 'v) \<Rightarrow> 'k \<Rightarrow> nat" where
  "map_count m k = (case m k of None \<Rightarrow> 0 | Some v \<Rightarrow> 1)"

text \<open>
  \<open>add_new_point\<close>. The two colours are \<open>uint8_t\<close> and convert to \<open>float\<close> as they are;
  the parameter \<open>border\<close> of \<open>coeff\<close> is an \<open>int\<close>, so the float is converted; the key of
  the map is the pair of the coordinates converted to \<open>int\<close>; the new index is
  \<open>iso_indices.size()\<close> as an \<open>unsigned int\<close>.
\<close>

definition add_new_point ::
  "8 word \<Rightarrow> int \<Rightarrow> 8 word \<Rightarrow> int \<Rightarrow> real \<Rightarrow> vec2 list \<Rightarrow> isolines \<Rightarrow> fault + isolines" where
  "add_new_point first_colour ind1 second_colour ind2 border points st =
     then_do (to_int border) (\<lambda>b.
     then_do (coeff (real (unat first_colour)) (real (unat second_colour)) b) (\<lambda>q.
     then_do (vector_at points ind1) (\<lambda>p1.
     then_do (vector_at points ind2) (\<lambda>p2.
       let point = \<lparr>vec2_x = float_add (float_mul (vec2_x p1) (float_sub 1 q))
                                       (float_mul (vec2_x p2) q),
                    vec2_y = float_add (float_mul (vec2_y p1) (float_sub 1 q))
                                       (float_mul (vec2_y p2) q)\<rparr>;
           st1 = st\<lparr>isopoints := isopoints st @ [point]\<rparr>
       in then_do (to_int (vec2_x point)) (\<lambda>key_x.
          then_do (to_int (vec2_y point)) (\<lambda>key_y.
            if map_count (indices_map st1) (key_x, key_y) = 0
            then Inr (st1\<lparr>iso_indices := iso_indices st1 @
                              [word_of_nat (length (iso_indices st1))]\<rparr>)
            else Inr st1))))))"

text \<open>The body of the innermost loop of \<open>create_isolines\<close>, for the cell \<open>(i, j)\<close>.\<close>

definition cell ::
  "vec2 list \<Rightarrow> colour list \<Rightarrow> int \<Rightarrow> real \<Rightarrow> int \<Rightarrow> int \<Rightarrow> isolines \<Rightarrow> fault + isolines" where
  "cell points point_colours max_y border i j st =
     then_do (vector_at point_colours (i * max_y + j)) (\<lambda>c_lu.
     then_do (vector_at point_colours ((i + 1) * max_y + j)) (\<lambda>c_ru.
     then_do (vector_at point_colours (i * max_y + (j + 1))) (\<lambda>c_ld.
     then_do (vector_at point_colours ((i + 1) * max_y + (j + 1))) (\<lambda>c_rd.
       let lu = color0 c_lu; lu_ind = i * max_y + j;
           ru = color0 c_ru; ru_ind = (i + 1) * max_y + j;
           ld = color0 c_ld; ld_ind = i * max_y + (j + 1);
           rd = color0 c_rd; rd_ind = (i + 1) * max_y + (j + 1);
           above = (\<lambda>c. real (unat c) > border);
           sum = (of_bool (above lu) + of_bool (above ru) + of_bool (above ld)
                  + of_bool (above rd) :: int)
       in if sum = 0 \<or> sum = 4 then Inr st
          else
            then_do (if above lu \<noteq> above ru
                     then add_new_point lu (narrow_int lu_ind) ru (narrow_int ru_ind) border points st
                     else Inr st) (\<lambda>st.
            then_do (if above rd \<noteq> above ru
                     then add_new_point rd (narrow_int rd_ind) ru (narrow_int ru_ind) border points st
                     else Inr st) (\<lambda>st.
            then_do (if above ld \<noteq> above rd
                     then add_new_point ld (narrow_int ld_ind) rd (narrow_int rd_ind) border points st
                     else Inr st) (\<lambda>st.
            if above ld \<noteq> above lu
            then add_new_point ld (narrow_int ld_ind) lu (narrow_int lu_ind) border points st
            else Inr st)))))))"

definition create_isolines ::
  "vec2 list \<Rightarrow> colour list \<Rightarrow> int \<Rightarrow> int \<Rightarrow> 8 word list \<Rightarrow> fault + isolines" where
  "create_isolines points point_colours max_x max_y Cs =
     for_int (int (length Cs))
       (\<lambda>k st. then_do (vector_at Cs k) (\<lambda>c.
          let border = real (unat c)
          in for_int (max_x - 1)
               (\<lambda>i. for_int (max_y - 1) (cell points point_colours max_y border i)) st))
       \<lparr>isopoints = [], iso_indices = [], indices_map = Map.empty\<rparr>"

text \<open>
  The points of one cell in the words of the specification: none when the four corner
  values lie on the same side of the threshold; otherwise, for each of the four edges
  (left-up to right-up, right-down to right-up, left-down to right-down, left-down to
  left-up) whose corner values lie on opposite sides, the linear interpolation of the
  corner positions with the coefficient \<open>(threshold - v1) / (v2 - v1)\<close>. The
  interpolation is \<open>p1 * (1 - q) + p2 * q\<close> in floats (\<open>float_lerp\<close>), every operation
  rounded, with \<open>q\<close> the rounded quotient; \<open>lerp\<close> above is the same in exact arithmetic.
\<close>

definition float_lerp :: "real \<Rightarrow> vec2 \<Rightarrow> vec2 \<Rightarrow> vec2" where
  "float_lerp q p1 p2 =
     \<lparr>vec2_x = float_add (float_mul (vec2_x p1) (float_sub 1 q)) (float_mul (vec2_x p2) q),
      vec2_y = float_add (float_mul (vec2_y p1) (float_sub 1 q)) (float_mul (vec2_y p2) q)\<rparr>"

definition exceeds :: "colour list \<Rightarrow> 8 word \<Rightarrow> int \<Rightarrow> bool" where
  "exceeds point_colours c a = (unat (color0 (point_colours ! nat a)) > unat c)"

definition edge_points :: "vec2 list \<Rightarrow> colour list \<Rightarrow> 8 word \<Rightarrow> int \<Rightarrow> int \<Rightarrow> vec2 list" where
  "edge_points points point_colours c a b =
     (let v1 = real (unat (color0 (point_colours ! nat a)));
          v2 = real (unat (color0 (point_colours ! nat b)))
      in if exceeds point_colours c a \<noteq> exceeds point_colours c b
         then [float_lerp (binary32 ((real (unat c) - v1) / (v2 - v1)))
                 (points ! nat a) (points ! nat b)]
         else [])"

definition cell_points :: "vec2 list \<Rightarrow> colour list \<Rightarrow> int \<Rightarrow> 8 word \<Rightarrow> int \<Rightarrow> int \<Rightarrow> vec2 list" where
  "cell_points points point_colours max_y c i j =
     (let lu = i * max_y + j; ru = (i + 1) * max_y + j;
          ld = i * max_y + (j + 1); rd = (i + 1) * max_y + (j + 1);
          n = length (filter (exceeds point_colours c) [lu, ru, ld, rd])
      in if n = 0 \<or> n = 4 then []
         else edge_points points point_colours c lu ru @ edge_points points point_colours c rd ru @
              edge_points points point_colours c ld rd @ edge_points points point_colours c ld lu)"

text \<open>
  The inputs on which no step of \<open>create_isolines\<close> is undefined: the two grids hold
  \<open>max_x * max_y\<close> entries, the counters and the cell indices fit an \<open>int\<close>, and the
  coordinates of the grid points are small enough for every interpolated coordinate,
  rounding included, to fit an \<open>int\<close>.
\<close>

definition grid_ok :: "vec2 list \<Rightarrow> colour list \<Rightarrow> int \<Rightarrow> int \<Rightarrow> 8 word list \<Rightarrow> bool" where
  "grid_ok points point_colours max_x max_y Cs \<longleftrightarrow>
     max_x * max_y \<le> int (length points) \<and> max_x * max_y \<le> int (length point_colours) \<and>
     max_x \<le> INT_MAX \<and> max_y \<le> INT_MAX \<and> max_x * max_y \<le> INT_MAX \<and>
     int (length Cs) \<le> INT_MAX \<and>
     (\<forall>p \<in> set points. \<bar>vec2_x p\<bar> \<le> 2 ^ 29 \<and> \<bar>vec2_y p\<bar> \<le> 2 ^ 29)"

text \<open>
  What the loops amount to. \<open>emit st ps\<close> is the state \<open>st\<close> after the points \<open>ps\<close> have
  been appended, each with the next index; \<open>grid_points\<close> collects the points of all cells
  for one threshold, in the order of the loops; \<open>indexed\<close> is the invariant of the index
  list.
\<close>

definition emit :: "isolines \<Rightarrow> vec2 list \<Rightarrow> isolines" where
  "emit st ps = st\<lparr>isopoints := isopoints st @ ps,
                   iso_indices := iso_indices st @
                     map word_of_nat [length (iso_indices st)..<length (iso_indices st) + length ps]\<rparr>"

definition grid_points :: "vec2 list \<Rightarrow> colour list \<Rightarrow> int \<Rightarrow> int \<Rightarrow> 8 word \<Rightarrow> vec2 list" where
  "grid_points points point_colours max_x max_y c =
     concat (map (\<lambda>i. concat (map (cell_points points point_colours max_y c i) [0..max_y - 2]))
               [0..max_x - 2])"

definition indexed :: "isolines \<Rightarrow> bool" where
  "indexed st \<longleftrightarrow> indices_map st = Map.empty \<and>
     iso_indices st = map word_of_nat [0..<length (isopoints st)]"

text \<open>
  A grid of two by two points with one cell, the left column darker than the threshold
  \<open>50\<close> and the right one lighter, on which the definitions are run.
\<close>

definition grid2_points :: "vec2 list" where
  "grid2_points = [\<lparr>vec2_x = -1, vec2_y = -1\<rparr>, \<lparr>vec2_x = -1, vec2_y = 1\<rparr>,
                   \<lparr>vec2_x = 1, vec2_y = -1\<rparr>, \<lparr>vec2_x = 1, vec2_y = 1\<rparr>]"

definition grid2_colours :: "colour list" where
  "grid2_colours = [\<lparr>colour_color = (10, 100, 100, 0)\<rparr>, \<lparr>colour_color = (100, 100, 100, 0)\<rparr>,
                    \<lparr>colour_color = (10, 100, 100, 0)\<rparr>, \<lparr>colour_color = (100, 100, 100, 0)\<rparr>]"


section \<open>The level-of-detail program (second program of unnamed/part\_003)\<close>

text \<open>
  \<open>glm::vec3\<close> with its sum, its difference and \<open>glm::length\<close>, which is the square
  root of the dot product \<open>(x * x + y * y) + z * z\<close>, all in floats. The headers \<open>aabb.hpp\<close>,
  \<open>frustum.hpp\<close>, \<open>intersect.hpp\<close> and \<open>gltf_loader.hpp\<close> are not among the sources: a box
  is the pair of corners its constructor is called with, a mesh has the fields \<open>min\<close>,
  \<open>max\<close> and \<open>indices.count\<close> that \<open>main\<close> reads, a frustum is of an arbitrary type
  \<open>'f\<close>, and the test \<open>intersect\<close> is a parameter.
\<close>

record vec3 =
  vec3_x :: real
  vec3_y :: real
  vec3_z :: real

definition vec3_plus :: "vec3 \<Rightarrow> vec3 \<Rightarrow> vec3" where
  "vec3_plus a b = \<lparr>vec3_x = float_add (vec3_x a) (vec3_x b),
                    vec3_y = float_add (vec3_y a) (vec3_y b),
                    vec3_z = float_add (vec3_z a) (vec3_z b)\<rparr>"

definition vec3_minus :: "vec3 \<Rightarrow> vec3 \<Rightarrow> vec3" where
  "vec3_minus a b = \<lparr>vec3_x = float_sub (vec3_x a) (vec3_x b),
                     vec3_y = float_sub (vec3_y a) (vec3_y b),
                     vec3_z = float_sub (vec3_z a) (vec3_z b)\<rparr>"

definition glm_length :: "vec3 \<Rightarrow> real" where
  "glm_length v =
     float_sqrt (float_add (float_add (float_mul (vec3_x v) (vec3_x v))
                                      (float_mul (vec3_y v) (vec3_y v)))
                           (float_mul (vec3_z v) (vec3_z v)))"

record aabb =
  aabb_min :: vec3
  aabb_max :: vec3

record mesh =
  mesh_min :: vec3
  mesh_max :: vec3
  indices_count :: nat

definition fixed_lod_value :: int where
  "fixed_lod_value = 1"

text \<open>The body of the two loops over the grid, for the translation \<open>(i, 0, j)\<close>.\<close>

definition place_instance ::
  "(aabb \<Rightarrow> 'f \<Rightarrow> bool) \<Rightarrow> 'f \<Rightarrow> mesh list \<Rightarrow> vec3 \<Rightarrow> int \<Rightarrow> int \<Rightarrow>
   vec3 list list \<Rightarrow> fault + vec3 list list" where
  "place_instance intersect f meshes camera_position i j instances =
     (let translation = \<lparr>vec3_x = float_mul 1 (float_of_int i), vec3_y = 0,
                          vec3_z = float_mul 1 (float_of_int j)\<rparr>
      in then_do (vector_at meshes 0) (\<lambda>mesh0.
         let box = \<lparr>aabb_min = vec3_plus (mesh_min mesh0) translation,
                    aabb_max = vec3_plus (mesh_max mesh0) translation\<rparr>
         in if intersect box f then
              then_do (float_div (glm_length (vec3_minus translation camera_position))
                                 (float_of_int fixed_lod_value)) (\<lambda>d.
              then_do (to_int d) (\<lambda>n.
                let lod = min 5 n; bucket = nat (max 0 lod)
                in Inr (instances[bucket := instances ! bucket @ [translation]])))
            else Inr instances))"

text \<open>\<open>std::vector<glm::vec3> instances[6]\<close>, filled by the loops over \<open>i\<close> and \<open>j\<close>.\<close>

definition select_instances ::
  "(aabb \<Rightarrow> 'f \<Rightarrow> bool) \<Rightarrow> 'f \<Rightarrow> mesh list \<Rightarrow> vec3 \<Rightarrow> fault + vec3 list list" where
  "select_instances intersect f meshes camera_position =
     for_each [- 16..15]
       (\<lambda>i. for_each [- 16..15] (place_instance intersect f meshes camera_position i))
       (replicate 6 [])"

text \<open>
  One \<open>glDrawElementsInstanced\<close>: the vertex array bound, the number of the mesh whose
  indices are drawn and their count, the translations uploaded to \<open>translations_vbo\<close>
  and the instance count.
\<close>

record draw_call =
  bound_vao :: nat
  mesh_number :: nat
  index_count :: nat
  uploaded :: "vec3 list"
  instance_count :: nat

definition draw_lods :: "mesh list \<Rightarrow> nat list \<Rightarrow> vec3 list list \<Rightarrow> fault + draw_call list" where
  "draw_lods meshes vaos instances =
     for_each [0..5]
       (\<lambda>lod calls.
          then_do (vector_at meshes lod) (\<lambda>mesh.
          then_do (vector_at vaos lod) (\<lambda>vao.
          then_do (vector_at instances lod) (\<lambda>bucket.
          Inr (calls @ [\<lparr>bound_vao = vao, mesh_number = nat lod,
                           index_count = indices_count mesh, uploaded = bucket,
                           instance_count = length bucket\<rparr>])))))
       []"

definition render_frame ::
  "(aabb \<Rightarrow> 'f \<Rightarrow> bool) \<Rightarrow> 'f \<Rightarrow> mesh list \<Rightarrow> nat list \<Rightarrow> vec3 \<Rightarrow>
   fault + vec3 list list \<times> draw_call list" where
  "render_frame intersect f meshes vaos camera_position =
     then_do (select_instances intersect f meshes camera_position) (\<lambda>instances.
     then_do (draw_lods meshes vaos instances) (\<lambda>calls.
     Inr (instances, calls)))"

text \<open>
  The translation of the grid point \<open>(i, j)\<close>, whether its box passes the test, and its
  bucket \<open>min(5, floor(d))\<close>, not below \<open>0\<close>, where \<open>d\<close> is the float that
  \<open>glm::length(translation - camera_position) / fixed_lod_value\<close> evaluates to.
\<close>

definition grid_translation :: "int \<Rightarrow> int \<Rightarrow> vec3" where
  "grid_translation i j = \<lparr>vec3_x = real_of_int i, vec3_y = 0, vec3_z = real_of_int j\<rparr>"

definition passes :: "(aabb \<Rightarrow> 'f \<Rightarrow> bool) \<Rightarrow> 'f \<Rightarrow> mesh list \<Rightarrow> vec3 \<Rightarrow> bool" where
  "passes intersect f meshes t =
     intersect \<lparr>aabb_min = vec3_plus (mesh_min (meshes ! 0)) t,
                aabb_max = vec3_plus (mesh_max (meshes ! 0)) t\<rparr> f"

definition float_distance :: "vec3 \<Rightarrow> vec3 \<Rightarrow> real" where
  "float_distance camera_position t =
     binary32 (glm_length (vec3_minus t camera_position) / float_of_int fixed_lod_value)"

definition lod_bucket :: "vec3 \<Rightarrow> vec3 \<Rightarrow> nat" where
  "lod_bucket camera_position t = nat (max 0 (min 5 \<lfloor>float_distance camera_position t\<rfloor>))"

text \<open>
  The bucket in the words of the specification,
  \<open>min(5, floor(|translation - camera_position| / fixed_lod_value))\<close> clamped below at
  \<open>0\<close>, with the Euclidean distance of the two points.
\<close>

definition euclidean_distance :: "vec3 \<Rightarrow> vec3 \<Rightarrow> real" where
  "euclidean_distance a b =
     sqrt ((vec3_x a - vec3_x b)\<^sup>2 + (vec3_y a - vec3_y b)\<^sup>2 + (vec3_z a - vec3_z b)\<^sup>2)"

definition specified_bucket :: "vec3 \<Rightarrow> vec3 \<Rightarrow> nat" where
  "specified_bucket camera_position t =
     nat (max 0 (min 5 \<lfloor>euclidean_distance t camera_position / real_of_int fixed_lod_value\<rfloor>))"

text \<open>
  A scene on which the frame is run: six meshes with the unit cube as bounds, a test
  that passes the boxes lying at \<open>x \<ge> 0\<close>, and the camera where \<open>main\<close> starts it.
\<close>

definition unit_meshes :: "mesh list" where
  "unit_meshes = replicate 6 \<lparr>mesh_min = \<lparr>vec3_x = 0, vec3_y = 0, vec3_z = 0\<rparr>,
                               mesh_max = \<lparr>vec3_x = 1, vec3_y = 1, vec3_z = 1\<rparr>,
                               indices_count = 3\<rparr>"

definition right_half :: "aabb \<Rightarrow> unit \<Rightarrow> bool" where
  "right_half box f = (0 \<le> vec3_x (aabb_min box))"

definition start_camera :: vec3 where
  "start_camera = \<lparr>vec3_x = 0, vec3_y = 3 / 2, vec3_z = 3\<rparr>"

text \<open>
  The camera positions for which every distance of the grid converts to an \<open>int\<close>, and
  one of them next to the origin.
\<close>

definition camera_ok :: "vec3 \<Rightarrow> bool" where
  "camera_ok c \<longleftrightarrow> \<bar>vec3_x c\<bar> \<le> 2 ^ 28 \<and> \<bar>vec3_y c\<bar> \<le> 2 ^ 28 \<and> \<bar>vec3_z c\<bar> \<le> 2 ^ 28"

definition near_camera :: vec3 where
  "near_camera = \<lparr>vec3_x = 1 / 2 ^ 25, vec3_y = 0, vec3_z = 0\<rparr>"


section \<open>Start-up and the shader helpers (all programs)\<close>

text \<open>
  OpenGL, SDL and GLEW are libraries outside the repository. What they answer is given
  by an environment: the results of the SDL and GLEW calls, and a driver that decides
  the compile status of a shader from its type and source and the link status of a
  program from the shader objects attached to it, in the order of attachment. The
  OpenGL context keeps the objects; creating an object is taken to succeed.
\<close>

datatype shader_type = GL_VERTEX_SHADER | GL_FRAGMENT_SHADER | GL_other_shader nat

definition GL_TRUE :: int where
  "GL_TRUE = 1"

record shader_object =
  shader_kind :: shader_type
  shader_source :: string
  compile_status :: int

record program_object =
  attached_shaders :: "nat list"
  link_status :: int

record gl_driver =
  compile :: "shader_type \<Rightarrow> string \<Rightarrow> int"
  compile_log :: "shader_type \<Rightarrow> string \<Rightarrow> string"
  link :: "shader_object list \<Rightarrow> int"
  link_log :: "shader_object list \<Rightarrow> string"

record gl =
  next_name :: nat
  shader_objects :: "nat \<rightharpoonup> shader_object"
  program_objects :: "nat \<rightharpoonup> program_object"

definition glCreateShader :: "shader_type \<Rightarrow> gl \<Rightarrow> nat \<times> gl" where
  "glCreateShader type g =
     (next_name g,
      g\<lparr>next_name := Suc (next_name g),
        shader_objects := (shader_objects g)(next_name g \<mapsto>
          \<lparr>shader_kind = type, shader_source = [], compile_status = 0\<rparr>)\<rparr>)"

definition glShaderSource :: "nat \<Rightarrow> string \<Rightarrow> gl \<Rightarrow> gl" where
  "glShaderSource shader source g =
     (case shader_objects g shader of
        None \<Rightarrow> g
      | Some sh \<Rightarrow> g\<lparr>shader_objects := (shader_objects g)(shader \<mapsto> sh\<lparr>shader_source := source\<rparr>)\<rparr>)"

definition glCompileShader :: "gl_driver \<Rightarrow> nat \<Rightarrow> gl \<Rightarrow> gl" where
  "glCompileShader drv shader g =
     (case shader_objects g shader of
        None \<Rightarrow> g
      | Some sh \<Rightarrow> g\<lparr>shader_objects := (shader_objects g)(shader \<mapsto>
          sh\<lparr>compile_status := compile drv (shader_kind sh) (shader_source sh)\<rparr>)\<rparr>)"

text \<open>The status and the log of a name that is no shader (no program) are not reached.\<close>

definition glGetShaderiv_COMPILE_STATUS :: "nat \<Rightarrow> gl \<Rightarrow> int" where
  "glGetShaderiv_COMPILE_STATUS shader g =
     (case shader_objects g shader of None \<Rightarrow> 0 | Some sh \<Rightarrow> compile_status sh)"

definition glGetShaderInfoLog :: "gl_driver \<Rightarrow> nat \<Rightarrow> gl \<Rightarrow> string" where
  "glGetShaderInfoLog drv shader g =
     (case shader_objects g shader of
        None \<Rightarrow> []
      | Some sh \<Rightarrow> compile_log drv (shader_kind sh) (shader_source sh))"

definition glCreateProgram :: "gl \<Rightarrow> nat \<times> gl" where
  "glCreateProgram g =
     (next_name g,
      g\<lparr>next_name := Suc (next_name g),
        program_objects := (program_objects g)(next_name g \<mapsto>
          \<lparr>attached_shaders = [], link_status = 0\<rparr>)\<rparr>)"

text \<open>
  \<open>glAttachShader\<close> attaches a shader object that is not attached yet; anything else is an
  OpenGL error and leaves the program as it is.
\<close>

definition glAttachShader :: "nat \<Rightarrow> nat \<Rightarrow> gl \<Rightarrow> gl" where
  "glAttachShader program shader g =
     (case program_objects g program of
        None \<Rightarrow> g
      | Some p \<Rightarrow>
          if shader \<in> dom (shader_objects g) \<and> shader \<notin> set (attached_shaders p)
          then g\<lparr>program_objects := (program_objects g)(program \<mapsto>
                 p\<lparr>attached_shaders := attached_shaders p @ [shader]\<rparr>)\<rparr>
          else g)"

definition attached_objects :: "gl \<Rightarrow> program_object \<Rightarrow> shader_object list" where
  "attached_objects g p = List.map_filter (shader_objects g) (attached_shaders p)"

definition glLinkProgram :: "gl_driver \<Rightarrow> nat \<Rightarrow> gl \<Rightarrow> gl" where
  "glLinkProgram drv program g =
     (case program_objects g program of
        None \<Rightarrow> g
      | Some p \<Rightarrow> g\<lparr>program_objects := (program_objects g)(program \<mapsto>
          p\<lparr>link_status := link drv (attached_objects g p)\<rparr>)\<rparr>)"

definition glGetProgramiv_LINK_STATUS :: "nat \<Rightarrow> gl \<Rightarrow> int" where
  "glGetProgramiv_LINK_STATUS program g =
     (case program_objects g program of None \<Rightarrow> 0 | Some p \<Rightarrow> link_status p)"

definition glGetProgramInfoLog :: "gl_driver \<Rightarrow> nat \<Rightarrow> gl \<Rightarrow> string" where
  "glGetProgramInfoLog drv program g =
     (case program_objects g program of
        None \<Rightarrow> []
      | Some p \<Rightarrow> link_log drv (attached_objects g p))"

text \<open>\<open>std::runtime_error\<close> with its message; a function that may throw returns \<open>exn + 'a\<close>.\<close>

datatype exn = runtime_error string

fun what :: "exn \<Rightarrow> string" where
  "what (runtime_error message) = message"

text \<open>
  \<open>create_shader\<close> and \<open>create_program\<close> as six of the seven programs have them, word for
  word the same. The message is the log after a fixed prefix.
\<close>

definition create_shader :: "gl_driver \<Rightarrow> shader_type \<Rightarrow> string \<Rightarrow> gl \<Rightarrow> (exn + nat) \<times> gl" where
  "create_shader drv type source g =
     (let (result, g1) = glCreateShader type g;
          g2 = glShaderSource result source g1;
          g3 = glCompileShader drv result g2;
          status = glGetShaderiv_COMPILE_STATUS result g3
      in if status \<noteq> GL_TRUE
         then (Inl (runtime_error (''Shader compilation failed: '' @ glGetShaderInfoLog drv result g3)), g3)
         else (Inr result, g3))"

definition create_program :: "gl_driver \<Rightarrow> nat \<Rightarrow> nat \<Rightarrow> gl \<Rightarrow> (exn + nat) \<times> gl" where
  "create_program drv vertex_shader fragment_shader g =
     (let (result, g1) = glCreateProgram g;
          g2 = glAttachShader result vertex_shader g1;
          g3 = glAttachShader result fragment_shader g2;
          g4 = glLinkProgram drv result g3;
          status = glGetProgramiv_LINK_STATUS result g4
      in if status \<noteq> GL_TRUE
         then (Inl (runtime_error (''Program linkage failed: '' @ glGetProgramInfoLog drv result g4)), g4)
         else (Inr result, g4))"

text \<open>
  The variadic \<open>create_program\<close> of the level-of-detail program: the fold expression
  attaches the shaders of the pack from left to right.
\<close>

definition create_program_variadic :: "gl_driver \<Rightarrow> nat list \<Rightarrow> gl \<Rightarrow> (exn + nat) \<times> gl" where
  "create_program_variadic drv shaders g =
     (let (result, g1) = glCreateProgram g;
          g3 = fold (glAttachShader result) shaders g1;
          g4 = glLinkProgram drv result g3;
          status = glGetProgramiv_LINK_STATUS result g4
      in if status \<noteq> GL_TRUE
         then (Inl (runtime_error (''Program linkage failed: '' @ glGetProgramInfoLog drv result g4)), g4)
         else (Inr result, g4))"

text \<open>
  The helpers of the first program (unnamed/part\_000): the message is what fits the
  buffer of 1024 characters, with no prefix.
\<close>

definition create_shader_part_000 ::
  "gl_driver \<Rightarrow> shader_type \<Rightarrow> string \<Rightarrow> gl \<Rightarrow> (exn + nat) \<times> gl" where
  "create_shader_part_000 drv shader_type shader_sourse g =
     (let (shader, g1) = glCreateShader shader_type g;
          g2 = glShaderSource shader shader_sourse g1;
          g3 = glCompileShader drv shader g2;
          compiled = glGetShaderiv_COMPILE_STATUS shader g3
      in if compiled \<noteq> GL_TRUE
         then (Inl (runtime_error (take 1023 (glGetShaderInfoLog drv shader g3))), g3)
         else (Inr shader, g3))"

definition create_program_part_000 :: "gl_driver \<Rightarrow> nat \<Rightarrow> nat \<Rightarrow> gl \<Rightarrow> (exn + nat) \<times> gl" where
  "create_program_part_000 drv vertex_shader fragment_shader g =
     (let (program, g1) = glCreateProgram g;
          g2 = glAttachShader program vertex_shader g1;
          g3 = glAttachShader program fragment_shader g2;
          g4 = glLinkProgram drv program g3;
          program_linked = glGetProgramiv_LINK_STATUS program g4
      in if program_linked \<noteq> GL_TRUE
         then (Inl (runtime_error (take 1023 (glGetProgramInfoLog drv program g4))), g4)
         else (Inr program, g4))"


text \<open>
  The start of \<open>main\<close>, the same in all programs up to the helpers it calls and the order
  of the two shaders: the first program compiles the fragment shader first and hands
  the fragment shader to \<open>create_program\<close> as its first argument, the level-of-detail
  program calls the variadic \<open>create_program\<close>.
\<close>

datatype helpers = Part_000 | Common | Variadic

record env =
  SDL_Init_result :: int
  SDL_GetError :: string
  SDL_CreateWindow_result :: nat
  SDL_GL_CreateContext_result :: nat
  glewInit_result :: nat
  glewGetErrorString :: "nat \<Rightarrow> string"
  GLEW_VERSION_3_3 :: bool
  driver :: gl_driver

definition GLEW_NO_ERROR :: nat where
  "GLEW_NO_ERROR = 0"

definition EXIT_FAILURE :: int where
  "EXIT_FAILURE = 1"

definition sdl2_fail :: "env \<Rightarrow> string \<Rightarrow> exn" where
  "sdl2_fail e message = runtime_error (message @ SDL_GetError e)"

definition glew_fail :: "env \<Rightarrow> string \<Rightarrow> nat \<Rightarrow> exn" where
  "glew_fail e message error = runtime_error (message @ glewGetErrorString e error)"

datatype init_call =
    Call_SDL_Init
  | Call_SDL_CreateWindow
  | Call_SDL_GL_CreateContext
  | Call_glewInit
  | Call_create_shader shader_type
  | Call_create_program

definition fresh_context :: gl where
  "fresh_context = \<lparr>next_name = 1, shader_objects = Map.empty, program_objects = Map.empty\<rparr>"

text \<open>
  The two shaders and the program, with the calls made. The result is the exception
  thrown or the name of the program and the context.
\<close>

definition build_program ::
  "helpers \<Rightarrow> gl_driver \<Rightarrow> string \<Rightarrow> string \<Rightarrow> (exn + nat \<times> gl) \<times> init_call list" where
  "build_program h drv vertex_shader_source fragment_shader_source =
     (case h of
        Part_000 \<Rightarrow>
          (case create_shader_part_000 drv GL_FRAGMENT_SHADER fragment_shader_source fresh_context of
             (Inl e, g1) \<Rightarrow> (Inl e, [Call_create_shader GL_FRAGMENT_SHADER])
           | (Inr fragment_shader, g1) \<Rightarrow>
          (case create_shader_part_000 drv GL_VERTEX_SHADER vertex_shader_source g1 of
             (Inl e, g2) \<Rightarrow>
               (Inl e, [Call_create_shader GL_FRAGMENT_SHADER, Call_create_shader GL_VERTEX_SHADER])
           | (Inr vertex_shader, g2) \<Rightarrow>
          (case create_program_part_000 drv fragment_shader vertex_shader g2 of
             (Inl e, g3) \<Rightarrow>
               (Inl e, [Call_create_shader GL_FRAGMENT_SHADER, Call_create_shader GL_VERTEX_SHADER,
                        Call_create_program])
           | (Inr program, g3) \<Rightarrow>
               (Inr (program, g3),
                [Call_create_shader GL_FRAGMENT_SHADER, Call_create_shader GL_VERTEX_SHADER,
                 Call_create_program]))))
      | _ \<Rightarrow>
          (case create_shader drv GL_VERTEX_SHADER vertex_shader_source fresh_context of
             (Inl e, g1) \<Rightarrow> (Inl e, [Call_create_shader GL_VERTEX_SHADER])
           | (Inr vertex_shader, g1) \<Rightarrow>
          (case create_shader drv GL_FRAGMENT_SHADER fragment_shader_source g1 of
             (Inl e, g2) \<Rightarrow>
               (Inl e, [Call_create_shader GL_VERTEX_SHADER, Call_create_shader GL_FRAGMENT_SHADER])
           | (Inr fragment_shader, g2) \<Rightarrow>
          (case (if h = Variadic
                 then create_program_variadic drv [vertex_shader, fragment_shader] g2
                 else create_program drv vertex_shader fragment_shader g2) of
             (Inl e, g3) \<Rightarrow>
               (Inl e, [Call_create_shader GL_VERTEX_SHADER, Call_create_shader GL_FRAGMENT_SHADER,
                        Call_create_program])
           | (Inr program, g3) \<Rightarrow>
               (Inr (program, g3),
                [Call_create_shader GL_VERTEX_SHADER, Call_create_shader GL_FRAGMENT_SHADER,
                 Call_create_program])))))"

definition startup ::
  "helpers \<Rightarrow> string \<Rightarrow> string \<Rightarrow> env \<Rightarrow> (exn + nat \<times> gl) \<times> init_call list" where
  "startup h vertex_shader_source fragment_shader_source e =
     (if SDL_Init_result e \<noteq> 0
      then (Inl (sdl2_fail e ''SDL_Init: ''), [Call_SDL_Init])
      else if SDL_CreateWindow_result e = 0
      then (Inl (sdl2_fail e ''SDL_CreateWindow: ''), [Call_SDL_Init, Call_SDL_CreateWindow])
      else if SDL_GL_CreateContext_result e = 0
      then (Inl (sdl2_fail e ''SDL_GL_CreateContext: ''),
            [Call_SDL_Init, Call_SDL_CreateWindow, Call_SDL_GL_CreateContext])
      else if glewInit_result e \<noteq> GLEW_NO_ERROR
      then (Inl (glew_fail e ''glewInit: '' (glewInit_result e)),
            [Call_SDL_Init, Call_SDL_CreateWindow, Call_SDL_GL_CreateContext, Call_glewInit])
      else if \<not> GLEW_VERSION_3_3 e
      then (Inl (runtime_error ''OpenGL 3.3 is not supported''),
            [Call_SDL_Init, Call_SDL_CreateWindow, Call_SDL_GL_CreateContext, Call_glewInit])
      else
        (case build_program h (driver e) vertex_shader_source fragment_shader_source of
           (r, calls) \<Rightarrow>
             (r, [Call_SDL_Init, Call_SDL_CreateWindow, Call_SDL_GL_CreateContext, Call_glewInit]
                 @ calls)))"

text \<open>
  \<open>main\<close> with its handler: \<open>rest\<close> is what the program does once started (loading its
  assets, the event loop), ending normally or by an exception. The outcome is what was
  written to \<open>std::cerr\<close>, the exit code and the start-up calls made.
\<close>

record outcome =
  cerr :: "string list"
  exit_code :: int
  calls_made :: "init_call list"

definition main ::
  "helpers \<Rightarrow> string \<Rightarrow> string \<Rightarrow> env \<Rightarrow> (nat \<Rightarrow> gl \<Rightarrow> exn + unit) \<Rightarrow> outcome" where
  "main h vertex_shader_source fragment_shader_source e rest =
     (case startup h vertex_shader_source fragment_shader_source e of
        (Inl ex, calls) \<Rightarrow> \<lparr>cerr = [what ex], exit_code = EXIT_FAILURE, calls_made = calls\<rparr>
      | (Inr (program, g), calls) \<Rightarrow>
          (case rest program g of
             Inl ex \<Rightarrow> \<lparr>cerr = [what ex], exit_code = EXIT_FAILURE, calls_made = calls\<rparr>
           | Inr u \<Rightarrow> \<lparr>cerr = [], exit_code = 0, calls_made = calls\<rparr>))"

text \<open>
  The shader objects the two sources compile to, and the order in which each kind of
  program attaches them.
\<close>

definition compiled :: "gl_driver \<Rightarrow> shader_type \<Rightarrow> string \<Rightarrow> shader_object" where
  "compiled drv type source =
     \<lparr>shader_kind = type, shader_source = source, compile_status = compile drv type source\<rparr>"

definition attach_order :: "helpers \<Rightarrow> gl_driver \<Rightarrow> string \<Rightarrow> string \<Rightarrow> shader_object list" where
  "attach_order h drv vertex_shader_source fragment_shader_source =
     (if h = Part_000
      then [compiled drv GL_FRAGMENT_SHADER fragment_shader_source,
            compiled drv GL_VERTEX_SHADER vertex_shader_source]
      else [compiled drv GL_VERTEX_SHADER vertex_shader_source,
            compiled drv GL_FRAGMENT_SHADER fragment_shader_source])"

text \<open>
  An environment in which everything succeeds, with a driver that compiles any source
  but the empty one and links any two shaders.
\<close>

definition good_driver :: gl_driver where
  "good_driver = \<lparr>compile = (\<lambda>type source. if source = [] then 0 else 1),
                   compile_log = (\<lambda>type source. ''empty source''),
                   link = (\<lambda>objects. if length objects = 2 then 1 else 0),
                   link_log = (\<lambda>objects. ''two shaders wanted'')\<rparr>"

definition good_env :: env where
  "good_env = \<lparr>SDL_Init_result = 0, SDL_GetError = ''no display'', SDL_CreateWindow_result = 1,
                SDL_GL_CreateContext_result = 1, glewInit_result = 0,
                glewGetErrorString = (\<lambda>error. ''glew error''), GLEW_VERSION_3_3 = True,
                driver = good_driver\<rparr>"



text \<open>The shaders attached to a new program after \<open>glAttachShader\<close> was called for \<open>a\<close>, then for \<open>b\<close>.\<close>

definition attached_after :: "gl \<Rightarrow> nat \<Rightarrow> nat \<Rightarrow> nat list" where
  "attached_after g a b =
     (if a \<in> dom (shader_objects g) then [a] else []) @
     (if b \<in> dom (shader_objects g) \<and> b \<noteq> a then [b] else [])"


chapter \<open>Properties\<close>

section \<open>Loops and faults\<close>

lemma then_do_Inr [simp]: "then_do (Inr v) f = f v"
  by (simp add: then_do_def)

lemma then_do_Inl [simp]: "then_do (Inl e) f = Inl e"
  by (simp add: then_do_def)


section \<open>Rounding to binary32\<close>

lemma round_even_between: "\<lfloor>y\<rfloor> \<le> round_even y \<and> round_even y \<le> \<lceil>y\<rceil>"
proof -
  have "\<lfloor>y\<rfloor> \<le> \<lceil>y\<rceil>" by (rule floor_le_ceiling)
  moreover have "\<lfloor>y\<rfloor> + 1 \<le> \<lceil>y\<rceil>" if "1 / 2 \<le> y - real_of_int \<lfloor>y\<rfloor>"
  proof -
    from that have "y \<noteq> real_of_int \<lfloor>y\<rfloor>" by auto
    then show ?thesis by (simp add: ceiling_altdef)
  qed
  ultimately show ?thesis
    by (auto simp: round_even_def Let_def not_less)
qed

lemma round_even_of_int [simp]: "round_even (real_of_int m) = m"
  by (simp add: round_even_def)

lemma round_even_bound:
  assumes "\<bar>y\<bar> \<le> real_of_int T"
  shows "\<bar>round_even y\<bar> \<le> T"
proof -
  have "- T \<le> \<lfloor>y\<rfloor>" using assms by (simp add: le_floor_iff abs_le_iff)
  moreover have "\<lceil>y\<rceil> \<le> T" using assms by (simp add: ceiling_le_iff abs_le_iff)
  ultimately show ?thesis using round_even_between [of y] by linarith
qed

lemma round_even_nonneg: "0 \<le> y \<Longrightarrow> 0 \<le> round_even y"
  using round_even_between [of y] by (simp add: order_trans [of 0 "\<lfloor>y\<rfloor>"])

lemma binary32_zero [simp]: "binary32 0 = 0"
  by (simp add: binary32_def)

lemma binary32_nonneg: "0 \<le> x \<Longrightarrow> 0 \<le> binary32 x"
  by (simp add: binary32_def Let_def round_even_nonneg)

text \<open>The exponent of a number between two powers of two, by which a rounding is computed.\<close>

lemma exponent_eq:
  assumes "2 powr real_of_int k \<le> \<bar>x\<bar>" "\<bar>x\<bar> < 2 powr real_of_int (k + 1)"
  shows "\<lfloor>log 2 \<bar>x\<bar>\<rfloor> = k"
proof -
  have "0 < (2::real) powr real_of_int k" by simp
  with assms(1) have pos: "0 < \<bar>x\<bar>" by linarith
  have "real_of_int k \<le> log 2 \<bar>x\<bar>" using assms(1) pos by (simp add: le_log_iff)
  moreover have "log 2 \<bar>x\<bar> < real_of_int k + 1" using assms(2) pos by (simp add: log_less_iff)
  ultimately show ?thesis by (simp add: floor_eq_iff)
qed

lemma binary32_eval:
  assumes "2 powr real_of_int k \<le> \<bar>x\<bar>" "\<bar>x\<bar> < 2 powr real_of_int (k + 1)"
  shows "binary32 x = real_of_int (round_even (x / 2 powr real_of_int (max (k - 23) (- 149))))
            * 2 powr real_of_int (max (k - 23) (- 149))"
proof -
  have "0 < (2::real) powr real_of_int k" by simp
  with assms(1) have "0 < \<bar>x\<bar>" by linarith
  then have "x \<noteq> 0" by simp
  then show ?thesis by (simp add: binary32_def exponent_eq [OF assms] Let_def)
qed

text \<open>Rounding does not leave an interval that ends at a power of two.\<close>

lemma binary32_bound:
  assumes "\<bar>x\<bar> \<le> 2 ^ n"
  shows "\<bar>binary32 x\<bar> \<le> 2 ^ n"
proof (cases "x = 0")
  case True
  then show ?thesis by simp
next
  case False
  define e where "e = max (\<lfloor>log 2 \<bar>x\<bar>\<rfloor> - 23) (- 149)"
  have "log 2 \<bar>x\<bar> \<le> log 2 (2 ^ n)" using assms False by (simp del: log_pow_cancel)
  then have "log 2 \<bar>x\<bar> \<le> real n" by simp
  then have "\<lfloor>log 2 \<bar>x\<bar>\<rfloor> \<le> int n" by (simp add: floor_le_iff)
  then have en: "e \<le> int n" by (simp add: e_def)
  define T :: int where "T = 2 ^ nat (int n - e)"
  have T: "real_of_int T = 2 powr (real n - real_of_int e)"
    using en by (simp add: T_def powr_realpow [symmetric])
  have "\<bar>x / 2 powr real_of_int e\<bar> = \<bar>x\<bar> * 2 powr (- real_of_int e)"
    by (simp add: powr_minus divide_inverse abs_mult)
  also have "\<dots> \<le> 2 ^ n * 2 powr (- real_of_int e)"
    using assms by (intro mult_right_mono) simp_all
  also have "\<dots> = real_of_int T"
    by (simp add: T powr_diff powr_realpow powr_minus divide_inverse)
  finally have "\<bar>round_even (x / 2 powr real_of_int e)\<bar> \<le> T"
    by (rule round_even_bound)
  then have "\<bar>real_of_int (round_even (x / 2 powr real_of_int e))\<bar> \<le> real_of_int T"
    by linarith
  then have "\<bar>real_of_int (round_even (x / 2 powr real_of_int e))\<bar> * 2 powr real_of_int e
      \<le> real_of_int T * 2 powr real_of_int e"
    by (intro mult_right_mono) simp_all
  also have "\<dots> = 2 ^ n"
    by (simp add: T powr_diff powr_realpow)
  finally show ?thesis
    using False by (simp add: binary32_def e_def [symmetric] Let_def abs_mult)
qed

lemma binary32_unit: "0 \<le> x \<Longrightarrow> x \<le> 1 \<Longrightarrow> 0 \<le> binary32 x \<and> binary32 x \<le> 1"
  using binary32_bound [of x 0] binary32_nonneg [of x] by simp

text \<open>The numbers of the format are not changed by rounding.\<close>

lemma binary32_exact:
  assumes "x / 2 powr real_of_int (max (\<lfloor>log 2 \<bar>x\<bar>\<rfloor> - 23) (- 149)) = real_of_int m"
  shows "binary32 x = x"
proof (cases "x = 0")
  case True
  then show ?thesis by simp
next
  case False
  define e where "e = max (\<lfloor>log 2 \<bar>x\<bar>\<rfloor> - 23) (- 149)"
  have m: "x / 2 powr real_of_int e = real_of_int m"
    using assms by (simp only: e_def)
  have "binary32 x = real_of_int (round_even (x / 2 powr real_of_int e)) * 2 powr real_of_int e"
    using False by (simp add: binary32_def Let_def e_def)
  also have "\<dots> = x / 2 powr real_of_int e * 2 powr real_of_int e"
    by (simp only: m round_even_of_int)
  also have "\<dots> = x" by simp
  finally show ?thesis .
qed

lemma floor_log_of_int:
  assumes "m \<noteq> 0" "\<bar>m\<bar> \<le> 2 ^ 24"
  shows "0 \<le> \<lfloor>log 2 \<bar>real_of_int m\<bar>\<rfloor>" and "\<lfloor>log 2 \<bar>real_of_int m\<bar>\<rfloor> \<le> 24"
    and "\<lfloor>log 2 \<bar>real_of_int m\<bar>\<rfloor> = 24 \<Longrightarrow> \<bar>m\<bar> = 2 ^ 24"
proof -
  have one: "1 \<le> \<bar>real_of_int m\<bar>" using assms(1) by (simp flip: of_int_abs)
  then have "0 \<le> log 2 \<bar>real_of_int m\<bar>" by simp
  then show "0 \<le> \<lfloor>log 2 \<bar>real_of_int m\<bar>\<rfloor>" by simp
  have "\<bar>real_of_int m\<bar> \<le> 2 ^ 24" using assms(2) by (simp flip: of_int_abs)
  then have "log 2 \<bar>real_of_int m\<bar> \<le> 24" using one by (simp add: log_le_iff)
  then show "\<lfloor>log 2 \<bar>real_of_int m\<bar>\<rfloor> \<le> 24" by (simp add: floor_le_iff)
  assume "\<lfloor>log 2 \<bar>real_of_int m\<bar>\<rfloor> = 24"
  then have "real_of_int 24 \<le> log 2 \<bar>real_of_int m\<bar>"
    by (simp only: floor_eq_iff)
  then have "24 \<le> log 2 \<bar>real_of_int m\<bar>" by simp
  then have "2 powr 24 \<le> \<bar>real_of_int m\<bar>" using one by (simp add: le_log_iff)
  then have "2 ^ 24 \<le> \<bar>m\<bar>" by (simp flip: of_int_abs)
  with assms(2) show "\<bar>m\<bar> = 2 ^ 24" by simp
qed

lemma binary32_repr:
  assumes m: "\<bar>m\<bar> \<le> 2 ^ 24" and e: "- 149 \<le> e"
  shows "binary32 (real_of_int m * 2 powr real_of_int e) = real_of_int m * 2 powr real_of_int e"
proof (cases "m = 0")
  case True
  then show ?thesis by simp
next
  case False
  define x where "x = real_of_int m * 2 powr real_of_int e"
  define L where "L = \<lfloor>log 2 \<bar>real_of_int m\<bar>\<rfloor>"
  note Lm = floor_log_of_int [OF False m, folded L_def]
  have "log 2 \<bar>x\<bar> = log 2 \<bar>real_of_int m\<bar> + real_of_int e"
    using False by (simp add: x_def abs_mult log_mult)
  then have Lx: "\<lfloor>log 2 \<bar>x\<bar>\<rfloor> = L + e"
    by (simp add: L_def)
  define E where "E = max (L + e - 23) (- 149)"
  have q: "x / 2 powr real_of_int E = real_of_int m * 2 powr real_of_int (e - E)"
    by (simp add: x_def powr_diff)
  have "\<exists>k. x / 2 powr real_of_int E = real_of_int k"
  proof (cases "L \<le> 23")
    case True
    then have "0 \<le> e - E" using e by (simp add: E_def)
    then have "2 powr real_of_int (e - E) = 2 ^ nat (e - E)"
      by (simp add: powr_realpow [symmetric])
    then have "x / 2 powr real_of_int E = real_of_int (m * 2 ^ nat (e - E))"
      by (simp add: q)
    then show ?thesis ..
  next
    case False
    with Lm(2) have L: "L = 24" by simp
    then have E: "e - E = - 1" using e by (simp add: E_def)
    from Lm(3) [OF L] consider "m = 2 ^ 24" | "m = - (2 ^ 24)" by linarith
    then show ?thesis
    proof cases
      case 1
      have "x / 2 powr real_of_int E = real_of_int (2 ^ 23)"
        unfolding q E by (simp add: 1)
      then show ?thesis ..
    next
      case 2
      have "x / 2 powr real_of_int E = real_of_int (- (2 ^ 23))"
        unfolding q E by (simp add: 2)
      then show ?thesis ..
    qed
  qed
  then obtain k where "x / 2 powr real_of_int (max (\<lfloor>log 2 \<bar>x\<bar>\<rfloor> - 23) (- 149)) = real_of_int k"
    unfolding Lx E_def by (auto simp: add.commute add_diff_eq diff_add_eq)
  then have "binary32 x = x" by (rule binary32_exact)
  then show ?thesis by (simp only: x_def)
qed

lemma binary32_of_int:
  "\<bar>m\<bar> \<le> 2 ^ 24 \<Longrightarrow> binary32 (real_of_int m) = real_of_int m"
  using binary32_repr [of m 0] by simp

lemma binary32_dyadic:
  "\<bar>m\<bar> \<le> 2 ^ 24 \<Longrightarrow> n \<le> 149 \<Longrightarrow> binary32 (real_of_int m / 2 ^ n) = real_of_int m / 2 ^ n"
  using binary32_repr [of m "- int n"] by (simp add: powr_minus powr_realpow divide_inverse)

lemma binary32_idem [simp]: "binary32 (binary32 x) = binary32 x"
proof (cases "x = 0")
  case True
  then show ?thesis by simp
next
  case False
  define L where "L = \<lfloor>log 2 \<bar>x\<bar>\<rfloor>"
  define E where "E = max (L - 23) (- 149)"
  have pos: "0 < \<bar>x\<bar>" using False by simp
  have "log 2 \<bar>x\<bar> < real_of_int L + 1" by (simp add: L_def)
  then have "\<bar>x\<bar> < 2 powr (real_of_int L + 1)" using pos by (simp add: log_less_iff)
  also have "\<dots> = 2 ^ 24 * 2 powr real_of_int (L - 23)"
    by (simp add: powr_diff powr_add)
  also have "\<dots> \<le> 2 ^ 24 * 2 powr real_of_int E"
    by (simp add: E_def)
  finally have "\<bar>x\<bar> / 2 powr real_of_int E \<le> 2 ^ 24"
    by (simp add: field_simps)
  then have "\<bar>x / 2 powr real_of_int E\<bar> \<le> real_of_int (2 ^ 24)" by simp
  then have R: "\<bar>round_even (x / 2 powr real_of_int E)\<bar> \<le> 2 ^ 24"
    by (rule round_even_bound)
  have "binary32 x = real_of_int (round_even (x / 2 powr real_of_int E)) * 2 powr real_of_int E"
    using False by (simp add: binary32_def Let_def E_def L_def)
  moreover have "- 149 \<le> E" by (simp add: E_def)
  ultimately show ?thesis using binary32_repr [OF R] by simp
qed

lemma binary32_one [simp]: "binary32 1 = 1"
  using binary32_of_int [of 1] by simp

lemma float_of_int_small: "\<bar>i\<bar> \<le> 2 ^ 24 \<Longrightarrow> float_of_int i = real_of_int i"
  by (simp add: float_of_int_def binary32_of_int)

lemma float_mul_one [simp]: "float_mul 1 (float_of_int i) = float_of_int i"
  by (simp add: float_mul_def float_of_int_def)


section \<open>The Bezier program: the curve\<close>

lemma vec2_update_all:
  "(p::vec2)\<lparr>vec2_x := a, vec2_y := b\<rparr> = \<lparr>vec2_x = a, vec2_y = b\<rparr>"
  by (cases p) simp

lemma bezier_assign_lerp:
  "bezier_assign t i ps = ps[i := lerp t (ps ! i) (ps ! (i + 1))]"
proof (cases "i < length ps")
  case True
  then show ?thesis
    by (simp add: bezier_assign_def lerp_def Let_def vec2_update_all)
next
  case False
  then show ?thesis by (simp add: bezier_assign_def Let_def list_update_beyond)
qed

lemma fold_bezier_assign:
  "m < length ps \<Longrightarrow>
   fold (bezier_assign t) [0..<m] ps =
     map (\<lambda>i. lerp t (ps ! i) (ps ! Suc i)) [0..<m] @ drop m ps"
proof (induction m)
  case 0
  then show ?case by simp
next
  case (Suc m)
  then have m: "m < length ps" and sm: "Suc m < length ps" by simp_all
  let ?A = "map (\<lambda>i. lerp t (ps ! i) (ps ! Suc i)) [0..<m]"
  have dm: "drop m ps = ps ! m # drop (Suc m) ps"
    using m by (simp add: Cons_nth_drop_Suc)
  have dsm: "drop (Suc m) ps = ps ! Suc m # drop (Suc (Suc m)) ps"
    using sm by (simp add: Cons_nth_drop_Suc)
  have "fold (bezier_assign t) [0..<Suc m] ps = bezier_assign t m (?A @ drop m ps)"
    using Suc.IH [OF m] by simp
  also have "\<dots> = ?A @ lerp t (ps ! m) (ps ! Suc m) # drop (Suc m) ps"
    by (simp add: bezier_assign_lerp list_update_append nth_append dm dsm)
  finally show ?case by simp
qed

lemma for_each_append_one:
  assumes "\<And>a s. a \<in> set as \<Longrightarrow> body a s = Inr (s @ [g a])"
  shows "for_each as body s = Inr (s @ map g as)"
  using assms by (induction as arbitrary: s) simp_all




lemma bezier_round_level:
  assumes len: "length pts = n" and k: "Suc k < n"
    and inv: "\<And>i. i < n - k \<Longrightarrow> pts ! i = de_casteljau_level t ps k i"
  shows "length (bezier_round t n k pts) = n"
    and "\<And>i. i < n - Suc k \<Longrightarrow> bezier_round t n k pts ! i = de_casteljau_level t ps (Suc k) i"
proof -
  have m: "n - (k + 1) < length pts" using len k by simp
  have eq: "bezier_round t n k pts =
      map (\<lambda>i. lerp t (pts ! i) (pts ! Suc i)) [0..<n - (k + 1)] @ drop (n - (k + 1)) pts"
    unfolding bezier_round_def by (rule fold_bezier_assign [OF m])
  show "length (bezier_round t n k pts) = n"
    using len k by (simp add: eq)
  fix i assume i: "i < n - Suc k"
  then have "bezier_round t n k pts ! i = lerp t (pts ! i) (pts ! Suc i)"
    by (simp add: eq nth_append)
  also have "\<dots> = de_casteljau_level t ps (Suc k) i"
    using i by (simp add: inv)
  finally show "bezier_round t n k pts ! i = de_casteljau_level t ps (Suc k) i" .
qed

lemma bezier_rounds_level:
  assumes "j < n" "length ps = n"
  shows "length (fold (bezier_round t n) [0..<j] ps) = n \<and>
         (\<forall>i < n - j. fold (bezier_round t n) [0..<j] ps ! i = de_casteljau_level t ps j i)"
  using assms(1)
proof (induction j)
  case 0
  then show ?case using assms(2) by simp
next
  case (Suc j)
  then have IH: "length (fold (bezier_round t n) [0..<j] ps) = n"
    "\<And>i. i < n - j \<Longrightarrow> fold (bezier_round t n) [0..<j] ps ! i = de_casteljau_level t ps j i"
    by simp_all
  from bezier_round_level [OF IH(1) Suc.prems IH(2)]
  show ?case by simp
qed

lemma bezier_de_casteljau:
  assumes "vs \<noteq> []"
  shows "bezier vs t = Inr (de_casteljau (map position vs) t)"
proof -
  let ?n = "length vs" and ?ps = "map position vs"
  have n: "?n - 1 < ?n" using assms by (cases vs) simp_all
  from bezier_rounds_level [OF n, of ?ps t]
  have "length (fold (bezier_round t ?n) [0..<?n - 1] ?ps) = ?n"
    and "fold (bezier_round t ?n) [0..<?n - 1] ?ps ! 0 = de_casteljau_level t ?ps (?n - 1) 0"
    using assms by simp_all
  moreover from this(1) assms have "0 < length (fold (bezier_round t ?n) [0..<?n - 1] ?ps)"
    by simp
  ultimately show ?thesis
    by (simp add: bezier_def Let_def vector_at_def de_casteljau_def del: length_greater_0_conv)
qed

lemma bezier_empty: "bezier [] t = Inl OutOfRange"
  by (simp add: bezier_def vector_at_def)

lemma count_bezier_vertices_value:
  assumes "vs \<noteq> []" "2 \<le> q"
  shows "count_bezier_vertices q vs =
     Inr (map (\<lambda>i. \<lparr>position = de_casteljau (map position vs)
                                   (real_of_int i / real_of_int (q - 1)),
                     color = [0, 0, 0, 0]\<rparr>) (map int [0..<nat q]))"
proof -
  have "q - 1 \<noteq> 0" using assms(2) by simp
  then show ?thesis
    unfolding count_bezier_vertices_def
    by (subst for_each_append_one [where g = "\<lambda>i. \<lparr>position = de_casteljau (map position vs)
                                   (real_of_int i / real_of_int (q - 1)),
                     color = [0, 0, 0, 0]\<rparr>"])
       (simp_all add: fdiv_def bezier_de_casteljau [OF assms(1)])
qed


lemma for_each_append:
  "for_each (as @ bs) body s = then_do (for_each as body s) (for_each bs body)"
  by (induction as arbitrary: s) (simp_all add: then_do_def split: sum.splits)

lemma for_each_single: "for_each [a] body s = body a s"
  by (cases "body a s") simp_all

lemma replicate_Suc_snoc: "replicate (Suc n) x = replicate n x @ [x]"
  by (simp add: replicate_append_same)

lemma take_butlast_less:
  "xs \<noteq> [] \<Longrightarrow> take (length xs - Suc k) (butlast xs) = take (length xs - Suc k) xs"
  by (simp add: take_butlast)

lemma count_bezier_vertices_one: "count_bezier_vertices 1 vs = Inl DivisionByZero"
  by (simp add: count_bezier_vertices_def fdiv_def)

lemma count_bezier_vertices_empty:
  "1 \<le> q \<Longrightarrow> count_bezier_vertices q [] = Inl (if q = 1 then DivisionByZero else OutOfRange)"
proof -
  assume q: "1 \<le> q"
  then have "[0..<nat q] = 0 # [1..<nat q]"
    by (simp add: upt_conv_Cons)
  then show ?thesis
    by (simp add: count_bezier_vertices_def fdiv_def bezier_empty)
qed

lemma count_bezier_vertices_returns:
  "vs \<noteq> [] \<Longrightarrow> 2 \<le> q \<Longrightarrow> \<exists>vb. count_bezier_vertices q vs = Inr vb"
  by (simp add: count_bezier_vertices_value)







section \<open>The Bezier program: the event loop\<close>

lemma update_vbos_Inr:
  "update_vbos s = Inr s' \<Longrightarrow> vertices s' = vertices s \<and> quality s' = quality s \<and>
     running s' = running s \<and> width s' = width s \<and> height s' = height s"
  by (auto simp: update_vbos_def Let_def then_do_def split: sum.splits)

lemma update_vbos_returns:
  "vertices s \<noteq> [] \<Longrightarrow> 2 \<le> quality s \<Longrightarrow> \<exists>s'. update_vbos s = Inr s'"
  using count_bezier_vertices_returns [of "vertices s" "quality s"]
  by (auto simp: update_vbos_def Let_def)

lemma update_vbos_quality:
  "update_vbos s = Inr s' \<Longrightarrow> quality s' \<noteq> 1"
  by (auto simp: update_vbos_def Let_def then_do_def count_bezier_vertices_one split: sum.splits)

lemma main_start_Inr:
  "main_start w h = Inr s \<Longrightarrow> quality s = 30 \<and> vertices s = initial_vertices"
  by (auto simp: main_start_def then_do_def split: sum.splits)

lemma main_start_returns: "\<exists>s. main_start w h = Inr s"
  using count_bezier_vertices_returns [of initial_vertices 30]
  by (auto simp: main_start_def initial_vertices_def)

lemma on_event_quality:
  "on_event e s = Inr s' \<Longrightarrow> 1 \<le> quality s \<Longrightarrow> 1 \<le> quality s'"
  by (cases e) (auto split: if_splits dest!: update_vbos_Inr)

lemma count_bezier_vertices_none: "q \<le> 0 \<Longrightarrow> count_bezier_vertices q vs = Inr []"
  by (simp add: count_bezier_vertices_def)

text \<open>
  With a control point, \<open>update_vbos\<close> returns or divides zero by zero, according to
  \<open>quality\<close>; a handler that calls it then has a state to go on in.
\<close>

lemma update_vbos_goes_on:
  assumes "vertices s \<noteq> []"
  shows "(\<exists>s'. update_vbos s = Inr s') \<or> update_vbos s = Inl DivisionByZero"
proof -
  consider "2 \<le> quality s" | "quality s = 1" | "quality s \<le> 0" by linarith
  then show ?thesis
  proof cases
    case 1
    with assms show ?thesis by (simp add: update_vbos_returns)
  next
    case 2
    then show ?thesis
      by (simp add: update_vbos_def Let_def count_bezier_vertices_one)
  next
    case 3
    then show ?thesis
      by (simp add: update_vbos_def Let_def count_bezier_vertices_none)
  qed
qed

lemma next_state_update:
  assumes "on_event e s = update_vbos (assigned e s)" "vertices (assigned e s) \<noteq> []"
  shows "\<exists>s'. next_state e s s'"
proof -
  from update_vbos_goes_on [OF assms(2)] show ?thesis
  proof
    assume "\<exists>s'. update_vbos (assigned e s) = Inr s'"
    then obtain s' where "on_event e s = Inr s'" using assms(1) by auto
    then have "next_state e s s'" by (rule next_state.returns)
    then show ?thesis ..
  next
    assume "update_vbos (assigned e s) = Inl DivisionByZero"
    then have "on_event e s = Inl DivisionByZero" using assms(1) by simp
    from next_state.not_a_number [OF this assms(2)] show ?thesis by blast
  qed
qed

lemma next_state_same:
  assumes "on_event e s = Inr (assigned e s)"
  shows "\<exists>s'. next_state e s s'"
  using next_state.returns [OF assms] ..

lemma on_event_assigned:
  "on_event e s = Inr s' \<Longrightarrow>
     vertices s' = vertices (assigned e s) \<and> quality s' = quality (assigned e s)"
  by (cases e) (auto split: if_splits dest!: update_vbos_Inr)

lemma next_state_assigned:
  "next_state e s s' \<Longrightarrow>
     vertices s' = vertices (assigned e s) \<and> quality s' = quality (assigned e s)"
  by (erule next_state.cases) (simp_all add: on_event_assigned)

lemma next_state_unchanged:
  assumes "next_state e s s'" "on_event e s = Inr s"
  shows "s' = s"
  using assms by (auto elim: next_state.cases)

lemma assigned_quality: "1 \<le> quality s \<Longrightarrow> 1 \<le> quality (assigned e s)"
  by (cases e) auto

lemma next_state_quality: "next_state e s s' \<Longrightarrow> 1 \<le> quality s \<Longrightarrow> 1 \<le> quality s'"
  by (erule next_state.cases) (auto dest: on_event_quality simp: assigned_quality)

lemma reachable_quality: "reachable s \<Longrightarrow> 1 \<le> quality s"
  by (induction rule: reachable.induct) (auto dest: main_start_Inr next_state_quality)

lemma run_reachable: "reachable s \<Longrightarrow> run events s = Inr s' \<Longrightarrow> reachable s'"
  unfolding run_def
proof (induction events arbitrary: s)
  case Nil
  then show ?case by simp
next
  case (Cons e events)
  from Cons.prems(2) obtain s1 where s1: "on_event e s = Inr s1"
    and rest: "for_each events on_event s1 = Inr s'"
    by (cases "on_event e s") simp_all
  have "reachable s1"
    using Cons.prems(1) next_state.returns [OF s1] by (rule reachable.step)
  then show ?case using rest by (rule Cons.IH)
qed

lemma run_left:
  "vertices s \<noteq> [] \<Longrightarrow> 2 \<le> quality s - int k \<Longrightarrow>
   \<exists>s'. run (replicate k (SDL_KEYDOWN SDLK_LEFT)) s = Inr s' \<and> vertices s' = vertices s \<and>
        quality s' = quality s - int k"
proof (induction k arbitrary: s)
  case 0
  then show ?case by (simp add: run_def)
next
  case (Suc k)
  let ?s1 = "s\<lparr>quality := quality s - 1\<rparr>"
  from Suc.prems obtain s1 where s1: "update_vbos ?s1 = Inr s1"
    using update_vbos_returns [of ?s1] by auto
  then have q1: "vertices s1 = vertices s" "quality s1 = quality s - 1"
    using update_vbos_Inr [OF s1] by simp_all
  have pre: "vertices s1 \<noteq> []" "2 \<le> quality s1 - int k"
    using Suc.prems q1 by simp_all
  from Suc.IH [OF pre] q1
  obtain s' where "run (replicate k (SDL_KEYDOWN SDLK_LEFT)) s1 = Inr s'"
    "vertices s' = vertices s" "quality s' = quality s - int (Suc k)"
    by auto
  with s1 Suc.prems show ?case
    by (simp add: run_def)
qed

lemma run_right_click:
  "k < length (vertices s) \<Longrightarrow> 2 \<le> quality s \<Longrightarrow>
   \<exists>s'. run (replicate k (SDL_MOUSEBUTTONDOWN SDL_BUTTON_RIGHT x y)) s = Inr s' \<and>
        vertices s' = take (length (vertices s) - k) (vertices s) \<and> quality s' = quality s"
proof (induction k arbitrary: s)
  case 0
  then show ?case by (simp add: run_def)
next
  case (Suc k)
  let ?s1 = "s\<lparr>vertices := butlast (vertices s)\<rparr>"
  have ne: "vertices ?s1 \<noteq> []" using Suc.prems by (cases "vertices s" rule: rev_cases) auto
  from Suc.prems ne obtain s1 where s1: "update_vbos ?s1 = Inr s1"
    using update_vbos_returns [of ?s1] by auto
  then have q1: "vertices s1 = butlast (vertices s)" "quality s1 = quality s"
    using update_vbos_Inr [OF s1] by simp_all
  have pre: "k < length (vertices s1)" "2 \<le> quality s1"
    using Suc.prems q1 by simp_all
  have ne0: "vertices s \<noteq> []" using Suc.prems by auto
  from Suc.IH [OF pre] q1
  obtain s' where "run (replicate k (SDL_MOUSEBUTTONDOWN SDL_BUTTON_RIGHT x y)) s1 = Inr s'"
    "vertices s' = take (length (butlast (vertices s)) - k) (butlast (vertices s))"
    "quality s' = quality s"
    by auto
  with s1 ne0 show ?case
    by (simp add: run_def take_butlast_less)
qed

text \<open>
  Claim C8 says that \<open>bezier\<close> is only ever invoked with at least one control point, so that
  its final read of \<open>points[0]\<close> is in bounds, also after right mouse clicks. The program
  starts with three control points. The guard of the right-click handler lets the last
  one be removed, and the handler then recomputes the curve: on the third right click
  \<open>count_bezier_vertices\<close> calls \<open>bezier\<close> with no control point, and the read of
  \<open>points[0]\<close> is out of range.
\<close>

theorem bezier_called_with_no_control_point:
  "then_do (main_start 800 600) (run (replicate 3 (SDL_MOUSEBUTTONDOWN SDL_BUTTON_RIGHT 0 0)))
     = Inl OutOfRange"
proof -
  obtain s where s: "main_start 800 600 = Inr s"
    using main_start_returns by blast
  then have s0: "quality s = 30" "vertices s = initial_vertices"
    using main_start_Inr by blast+
  then obtain s2 where s2: "run (replicate 2 (SDL_MOUSEBUTTONDOWN SDL_BUTTON_RIGHT 0 0)) s = Inr s2"
    "vertices s2 = take 1 initial_vertices" "quality s2 = 30"
    using run_right_click [of 2 s 0 0] by (auto simp: initial_vertices_def)
  have "replicate 3 (SDL_MOUSEBUTTONDOWN SDL_BUTTON_RIGHT 0 0) =
      replicate 2 (SDL_MOUSEBUTTONDOWN SDL_BUTTON_RIGHT 0 0) @ [SDL_MOUSEBUTTONDOWN SDL_BUTTON_RIGHT 0 0]"
    using replicate_Suc_snoc [of 2 "SDL_MOUSEBUTTONDOWN SDL_BUTTON_RIGHT 0 0"]
    by (simp only: Suc_numeral Num.add_One Num.inc.simps)
  then have "run (replicate 3 (SDL_MOUSEBUTTONDOWN SDL_BUTTON_RIGHT 0 0)) s =
      on_event (SDL_MOUSEBUTTONDOWN SDL_BUTTON_RIGHT 0 0) s2"
    using s2(1) by (simp add: run_def for_each_append for_each_single del: for_each.simps)
  also have "\<dots> = Inl OutOfRange"
    using s2(2,3)
    by (simp add: initial_vertices_def update_vbos_def Let_def count_bezier_vertices_empty)
  finally show ?thesis using s by simp
qed

text \<open>
  Claim C9 says that the divisor \<open>quality - 1\<close> of \<open>count_bezier_vertices\<close> is never zero,
  \<open>quality\<close> being at least \<open>2\<close> at every call. The LEFT handler decrements \<open>quality\<close>
  whenever it is above \<open>1\<close>, also from \<open>2\<close>, and then recomputes the curve: the 29th LEFT
  key press after the start calls \<open>count_bezier_vertices\<close> with \<open>quality = 1\<close>, which
  divides by zero.
\<close>

theorem count_bezier_vertices_divides_by_zero:
  "then_do (main_start 800 600) (run (replicate 29 (SDL_KEYDOWN SDLK_LEFT))) = Inl DivisionByZero"
proof -
  obtain s where s: "main_start 800 600 = Inr s"
    using main_start_returns by blast
  then have s0: "quality s = 30" "vertices s = initial_vertices"
    using main_start_Inr by blast+
  then obtain s2 where s2: "run (replicate 28 (SDL_KEYDOWN SDLK_LEFT)) s = Inr s2"
    "vertices s2 = initial_vertices" "quality s2 = 2"
    using run_left [of s 28] by (auto simp: initial_vertices_def)
  have "replicate 29 (SDL_KEYDOWN SDLK_LEFT) = replicate 28 (SDL_KEYDOWN SDLK_LEFT) @ [SDL_KEYDOWN SDLK_LEFT]"
    using replicate_Suc_snoc [of 28 "SDL_KEYDOWN SDLK_LEFT"]
    by (simp only: Suc_numeral Num.add_One Num.inc.simps)
  then have "run (replicate 29 (SDL_KEYDOWN SDLK_LEFT)) s = on_event (SDL_KEYDOWN SDLK_LEFT) s2"
    using s2(1) by (simp add: run_def for_each_append for_each_single del: for_each.simps)
  also have "\<dots> = Inl DivisionByZero"
    using s2(2,3)
    by (simp add: update_vbos_def Let_def count_bezier_vertices_one)
  finally show ?thesis using s by simp
qed

text \<open>
  Claim C6. The control points and \<open>quality\<close> change from one state of the loop to the
  next only as the handler of the event assigns them. After a left click the loop goes
  on, with one vertex appended at the mouse position as converted to \<open>float\<close>, which is
  the position itself while the coordinates are at most \<open>2 ^ 24\<close> in size, and \<open>quality\<close>
  as it was. After a right click it goes on when there was no control point or more
  than one, with the last vertex removed, and in the very same state when there was
  none. After LEFT it goes on when \<open>quality \<le> 1\<close> or there is a control point, with
  \<open>quality\<close> one less when it was above \<open>1\<close> and in the very same state otherwise. After
  RIGHT it goes on when \<open>quality\<close> is below \<open>INT_MAX\<close> and there is a control point, with
  \<open>quality\<close> one more. After any other event it goes on with the same control points
  and \<open>quality\<close>. While \<open>quality\<close> is at least \<open>2\<close> (for LEFT, at least \<open>3\<close>) and a
  control point is left, the handler returns with the curve recomputed. And
  \<open>quality \<ge> 1\<close> in every reachable state.
\<close>

theorem event_handlers_update_state:
  "(\<exists>t. next_state (SDL_MOUSEBUTTONDOWN SDL_BUTTON_LEFT mx my) s t) \<and>
   (next_state (SDL_MOUSEBUTTONDOWN SDL_BUTTON_LEFT mx my) s s' \<longrightarrow>
      vertices s' = vertices s @
        [\<lparr>position = \<lparr>vec2_x = float_of_int mx, vec2_y = float_of_int my\<rparr>,
          color = [20, 20, 20, 20]\<rparr>] \<and>
      quality s' = quality s) \<and>
   (\<bar>mx\<bar> \<le> 2 ^ 24 \<and> \<bar>my\<bar> \<le> 2 ^ 24 \<and>
    next_state (SDL_MOUSEBUTTONDOWN SDL_BUTTON_LEFT mx my) s s' \<longrightarrow>
      vertices s' = vertices s @
        [\<lparr>position = \<lparr>vec2_x = real_of_int mx, vec2_y = real_of_int my\<rparr>,
          color = [20, 20, 20, 20]\<rparr>]) \<and>
   (vertices s = [] \<or> 2 \<le> length (vertices s) \<longrightarrow>
      (\<exists>t. next_state (SDL_MOUSEBUTTONDOWN SDL_BUTTON_RIGHT mx my) s t)) \<and>
   (next_state (SDL_MOUSEBUTTONDOWN SDL_BUTTON_RIGHT mx my) s s' \<longrightarrow>
      quality s' = quality s \<and> vertices s' = butlast (vertices s) \<and>
      (vertices s = [] \<longrightarrow> s' = s)) \<and>
   (quality s \<le> 1 \<or> vertices s \<noteq> [] \<longrightarrow> (\<exists>t. next_state (SDL_KEYDOWN SDLK_LEFT) s t)) \<and>
   (next_state (SDL_KEYDOWN SDLK_LEFT) s s' \<longrightarrow>
      vertices s' = vertices s \<and>
      (1 < quality s \<longrightarrow> quality s' = quality s - 1) \<and>
      (quality s \<le> 1 \<longrightarrow> s' = s)) \<and>
   (quality s < INT_MAX \<and> vertices s \<noteq> [] \<longrightarrow>
      (\<exists>t. next_state (SDL_KEYDOWN SDLK_RIGHT) s t)) \<and>
   (next_state (SDL_KEYDOWN SDLK_RIGHT) s s' \<longrightarrow>
      vertices s' = vertices s \<and> quality s' = quality s + 1) \<and>
   ((\<forall>x y. e \<noteq> SDL_MOUSEBUTTONDOWN SDL_BUTTON_LEFT x y) \<and>
    (\<forall>x y. e \<noteq> SDL_MOUSEBUTTONDOWN SDL_BUTTON_RIGHT x y) \<and>
    e \<noteq> SDL_KEYDOWN SDLK_LEFT \<and> e \<noteq> SDL_KEYDOWN SDLK_RIGHT \<longrightarrow>
      (\<exists>t. next_state e s t) \<and>
      (next_state e s s' \<longrightarrow> vertices s' = vertices s \<and> quality s' = quality s)) \<and>
   (2 \<le> quality s \<longrightarrow>
      (\<exists>t. on_event (SDL_MOUSEBUTTONDOWN SDL_BUTTON_LEFT mx my) s = Inr t) \<and>
      (2 \<le> length (vertices s) \<longrightarrow>
         (\<exists>t. on_event (SDL_MOUSEBUTTONDOWN SDL_BUTTON_RIGHT mx my) s = Inr t)) \<and>
      (3 \<le> quality s \<and> vertices s \<noteq> [] \<longrightarrow>
         (\<exists>t. on_event (SDL_KEYDOWN SDLK_LEFT) s = Inr t)) \<and>
      (quality s < INT_MAX \<and> vertices s \<noteq> [] \<longrightarrow>
         (\<exists>t. on_event (SDL_KEYDOWN SDLK_RIGHT) s = Inr t))) \<and>
   (reachable s \<longrightarrow> 1 \<le> quality s)"
proof -
  let ?LC = "SDL_MOUSEBUTTONDOWN SDL_BUTTON_LEFT mx my"
  let ?RC = "SDL_MOUSEBUTTONDOWN SDL_BUTTON_RIGHT mx my"
  have lc_on: "\<exists>t. next_state ?LC s t"
    by (rule next_state_update) simp_all
  have lc: "next_state ?LC s s' \<longrightarrow>
      vertices s' = vertices s @
        [\<lparr>position = \<lparr>vec2_x = float_of_int mx, vec2_y = float_of_int my\<rparr>,
          color = [20, 20, 20, 20]\<rparr>] \<and>
      quality s' = quality s"
    by (auto dest!: next_state_assigned)
  have lc_exact: "\<bar>mx\<bar> \<le> 2 ^ 24 \<and> \<bar>my\<bar> \<le> 2 ^ 24 \<and> next_state ?LC s s' \<longrightarrow>
      vertices s' = vertices s @
        [\<lparr>position = \<lparr>vec2_x = real_of_int mx, vec2_y = real_of_int my\<rparr>,
          color = [20, 20, 20, 20]\<rparr>]"
    using lc by (auto simp: float_of_int_small)
  have rc_on: "vertices s = [] \<or> 2 \<le> length (vertices s) \<longrightarrow> (\<exists>t. next_state ?RC s t)"
  proof
    assume "vertices s = [] \<or> 2 \<le> length (vertices s)"
    then show "\<exists>t. next_state ?RC s t"
    proof
      assume "vertices s = []"
      then show ?thesis by (intro next_state_same) simp
    next
      assume two: "2 \<le> length (vertices s)"
      then have "length (butlast (vertices s)) \<noteq> 0" by simp
      then have "butlast (vertices s) \<noteq> []" by (simp del: length_butlast)
      with two show ?thesis by (intro next_state_update) auto
    qed
  qed
  have rc: "next_state ?RC s s' \<longrightarrow>
      quality s' = quality s \<and> vertices s' = butlast (vertices s) \<and>
      (vertices s = [] \<longrightarrow> s' = s)"
  proof (intro impI conjI)
    assume n: "next_state ?RC s s'"
    from next_state_assigned [OF n]
    show "quality s' = quality s" "vertices s' = butlast (vertices s)"
      by (auto split: if_splits)
    assume "vertices s = []"
    then show "s' = s" using n by (intro next_state_unchanged [OF n]) simp
  qed
  have left_on: "quality s \<le> 1 \<or> vertices s \<noteq> [] \<longrightarrow> (\<exists>t. next_state (SDL_KEYDOWN SDLK_LEFT) s t)"
  proof (cases "quality s \<le> 1")
    case True
    then have "\<exists>t. next_state (SDL_KEYDOWN SDLK_LEFT) s t"
      by (intro next_state_same) simp
    then show ?thesis ..
  next
    case False
    then have "vertices s \<noteq> [] \<Longrightarrow> \<exists>t. next_state (SDL_KEYDOWN SDLK_LEFT) s t"
      by (intro next_state_update) simp_all
    with False show ?thesis by blast
  qed
  have left: "next_state (SDL_KEYDOWN SDLK_LEFT) s s' \<longrightarrow>
      vertices s' = vertices s \<and>
      (1 < quality s \<longrightarrow> quality s' = quality s - 1) \<and>
      (quality s \<le> 1 \<longrightarrow> s' = s)"
  proof (intro impI conjI)
    assume n: "next_state (SDL_KEYDOWN SDLK_LEFT) s s'"
    from next_state_assigned [OF n]
    show "vertices s' = vertices s" by (auto split: if_splits)
    from next_state_assigned [OF n]
    show "quality s' = quality s - 1" if "1 < quality s" using that by simp
    show "s' = s" if "quality s \<le> 1"
      using that by (intro next_state_unchanged [OF n]) simp
  qed
  have right_on: "quality s < INT_MAX \<and> vertices s \<noteq> [] \<longrightarrow>
      (\<exists>t. next_state (SDL_KEYDOWN SDLK_RIGHT) s t)"
    by (intro impI next_state_update) simp_all
  have right: "next_state (SDL_KEYDOWN SDLK_RIGHT) s s' \<longrightarrow>
      vertices s' = vertices s \<and> quality s' = quality s + 1"
    by (auto dest!: next_state_assigned)
  have other: "(\<forall>x y. e \<noteq> SDL_MOUSEBUTTONDOWN SDL_BUTTON_LEFT x y) \<and>
    (\<forall>x y. e \<noteq> SDL_MOUSEBUTTONDOWN SDL_BUTTON_RIGHT x y) \<and>
    e \<noteq> SDL_KEYDOWN SDLK_LEFT \<and> e \<noteq> SDL_KEYDOWN SDLK_RIGHT \<longrightarrow>
      (\<exists>t. next_state e s t) \<and>
      (next_state e s s' \<longrightarrow> vertices s' = vertices s \<and> quality s' = quality s)"
  proof (intro impI conjI)
    assume e: "(\<forall>x y. e \<noteq> SDL_MOUSEBUTTONDOWN SDL_BUTTON_LEFT x y) \<and>
      (\<forall>x y. e \<noteq> SDL_MOUSEBUTTONDOWN SDL_BUTTON_RIGHT x y) \<and>
      e \<noteq> SDL_KEYDOWN SDLK_LEFT \<and> e \<noteq> SDL_KEYDOWN SDLK_RIGHT"
    then have same: "on_event e s = Inr (assigned e s)"
      and keep: "vertices (assigned e s) = vertices s" "quality (assigned e s) = quality s"
      by (cases e; simp)+
    from same show "\<exists>t. next_state e s t" by (rule next_state_same)
    assume n: "next_state e s s'"
    from next_state_assigned [OF n] keep
    show "vertices s' = vertices s" "quality s' = quality s" by simp_all
  qed
  have returns: "2 \<le> quality s \<longrightarrow>
      (\<exists>t. on_event ?LC s = Inr t) \<and>
      (2 \<le> length (vertices s) \<longrightarrow> (\<exists>t. on_event ?RC s = Inr t)) \<and>
      (3 \<le> quality s \<and> vertices s \<noteq> [] \<longrightarrow>
         (\<exists>t. on_event (SDL_KEYDOWN SDLK_LEFT) s = Inr t)) \<and>
      (quality s < INT_MAX \<and> vertices s \<noteq> [] \<longrightarrow>
         (\<exists>t. on_event (SDL_KEYDOWN SDLK_RIGHT) s = Inr t))"
  proof (intro impI conjI)
    assume q: "2 \<le> quality s"
    show "\<exists>t. on_event ?LC s = Inr t"
      using q by (simp add: update_vbos_returns)
    show "\<exists>t. on_event ?RC s = Inr t" if "2 \<le> length (vertices s)"
    proof -
      from that have "length (butlast (vertices s)) \<noteq> 0" by simp
      then have "butlast (vertices s) \<noteq> []" by (simp del: length_butlast)
      with that q show ?thesis by (auto simp: update_vbos_returns)
    qed
    show "\<exists>t. on_event (SDL_KEYDOWN SDLK_LEFT) s = Inr t"
      if "3 \<le> quality s \<and> vertices s \<noteq> []"
      using that by (simp add: update_vbos_returns)
    show "\<exists>t. on_event (SDL_KEYDOWN SDLK_RIGHT) s = Inr t"
      if "quality s < INT_MAX \<and> vertices s \<noteq> []"
      using that q by (simp add: update_vbos_returns)
  qed
  have inv: "reachable s \<longrightarrow> 1 \<le> quality s"
    by (simp add: reachable_quality)
  from lc_on lc lc_exact rc_on rc left_on left right_on right other returns inv show ?thesis
    by (intro conjI)
qed

text \<open>
  A state with \<open>quality = 1\<close> is reached from the start by 29 presses of LEFT; there
  another LEFT changes nothing, and a left click at \<open>(5, 7)\<close> appends that point.
\<close>

theorem event_handlers_update_state_witness:
  "\<exists>s. reachable s \<and> quality s = 1 \<and> 1 \<le> quality s \<and> vertices s = initial_vertices \<and>
     (\<exists>t. next_state (SDL_KEYDOWN SDLK_LEFT) s t \<and> t = s) \<and>
     (\<exists>t. next_state (SDL_MOUSEBUTTONDOWN SDL_BUTTON_LEFT 5 7) s t \<and> quality t = 1 \<and>
          vertices t = initial_vertices @
            [\<lparr>position = \<lparr>vec2_x = 5, vec2_y = 7\<rparr>, color = [20, 20, 20, 20]\<rparr>])"
proof -
  obtain s0 where s0: "main_start 800 600 = Inr s0"
    using main_start_returns by blast
  then have q0: "quality s0 = 30" "vertices s0 = initial_vertices"
    using main_start_Inr by blast+
  have r0: "reachable s0" using s0 by (rule reachable.start)
  obtain s2 where s2: "run (replicate 28 (SDL_KEYDOWN SDLK_LEFT)) s0 = Inr s2"
    "vertices s2 = initial_vertices" "quality s2 = 2"
    using run_left [of s0 28] q0 by (auto simp: initial_vertices_def)
  have r2: "reachable s2" using r0 s2(1) by (rule run_reachable)
  have nan: "on_event (SDL_KEYDOWN SDLK_LEFT) s2 = Inl DivisionByZero"
    using s2(2,3) by (simp add: update_vbos_def Let_def count_bezier_vertices_one)
  have ne: "vertices (assigned (SDL_KEYDOWN SDLK_LEFT) s2) \<noteq> []"
    using s2(2,3) by (simp add: initial_vertices_def)
  define s where "s = (assigned (SDL_KEYDOWN SDLK_LEFT) s2)
     \<lparr>vbo := vertices (assigned (SDL_KEYDOWN SDLK_LEFT) s2),
      vertices_bezier := [hd initial_vertices], vbo_bezier := [hd initial_vertices]\<rparr>"
  have "next_state (SDL_KEYDOWN SDLK_LEFT) s2 s"
    unfolding s_def by (rule next_state.not_a_number [OF nan ne])
  with r2 have r: "reachable s" by (rule reachable.step)
  have q: "quality s = 1" and v: "vertices s = initial_vertices"
    using s2(2,3) by (simp_all add: s_def)
  note all = event_handlers_update_state [of 5 7 s _ SDL_QUIT]
  note c2 = conjunct2
  have inv: "1 \<le> quality s"
    using all [THEN c2, THEN c2, THEN c2, THEN c2, THEN c2, THEN c2, THEN c2, THEN c2, THEN c2,
      THEN c2, THEN c2] r by (rule mp)
  have "quality s \<le> 1 \<or> vertices s \<noteq> []" using q by simp
  with all [THEN c2, THEN c2, THEN c2, THEN c2, THEN c2, THEN conjunct1]
  have "\<exists>t. next_state (SDL_KEYDOWN SDLK_LEFT) s t" by (rule mp)
  then obtain t1 where t1: "next_state (SDL_KEYDOWN SDLK_LEFT) s t1" ..
  from all [THEN c2, THEN c2, THEN c2, THEN c2, THEN c2, THEN c2, THEN conjunct1] t1
  have "vertices t1 = vertices s \<and> (1 < quality s \<longrightarrow> quality t1 = quality s - 1) \<and>
      (quality s \<le> 1 \<longrightarrow> t1 = s)"
    by (rule mp)
  then have same: "t1 = s" using q by simp
  from all [THEN conjunct1]
  obtain t2 where t2: "next_state (SDL_MOUSEBUTTONDOWN SDL_BUTTON_LEFT 5 7) s t2" ..
  from all [THEN c2, THEN conjunct1] t2
  have "vertices t2 = vertices s @
        [\<lparr>position = \<lparr>vec2_x = float_of_int 5, vec2_y = float_of_int 7\<rparr>,
          color = [20, 20, 20, 20]\<rparr>] \<and> quality t2 = quality s"
    by (rule mp)
  then have q2: "quality t2 = 1" using q by simp
  have "\<bar>5 :: int\<bar> \<le> 2 ^ 24 \<and> \<bar>7 :: int\<bar> \<le> 2 ^ 24 \<and>
      next_state (SDL_MOUSEBUTTONDOWN SDL_BUTTON_LEFT 5 7) s t2"
    using t2 by simp
  with all [THEN c2, THEN c2, THEN conjunct1]
  have "vertices t2 = vertices s @
        [\<lparr>position = \<lparr>vec2_x = real_of_int 5, vec2_y = real_of_int 7\<rparr>,
          color = [20, 20, 20, 20]\<rparr>]"
    by (rule mp)
  then have v2: "vertices t2 = initial_vertices @
            [\<lparr>position = \<lparr>vec2_x = 5, vec2_y = 7\<rparr>, color = [20, 20, 20, 20]\<rparr>]"
    using v by simp
  have left: "\<exists>t. next_state (SDL_KEYDOWN SDLK_LEFT) s t \<and> t = s"
    using t1 same by (intro exI [of _ t1] conjI)
  have click: "\<exists>t. next_state (SDL_MOUSEBUTTONDOWN SDL_BUTTON_LEFT 5 7) s t \<and> quality t = 1 \<and>
          vertices t = initial_vertices @
            [\<lparr>position = \<lparr>vec2_x = 5, vec2_y = 7\<rparr>, color = [20, 20, 20, 20]\<rparr>]"
    using t2 q2 v2 by (intro exI [of _ t2] conjI)
  show ?thesis
    by (rule exI [of _ s]) (intro conjI r q inv v left click)
qed


section \<open>The isolines program\<close>

lemma emit_Nil [simp]: "emit st [] = st"
  by (simp add: emit_def)

lemma emit_emit [simp]: "emit (emit st ps) qs = emit st (ps @ qs)"
proof -
  let ?n = "length (iso_indices st)"
  have "[?n..<?n + (length ps + length qs)] = [?n..<?n + length ps] @ [?n + length ps..<?n + length ps + length qs]"
    using upt_add_eq_append [of ?n "?n + length ps" "length qs"] by (simp add: add.assoc)
  then show ?thesis by (simp add: emit_def)
qed

lemma indices_map_emit [simp]: "indices_map (emit st ps) = indices_map st"
  by (simp add: emit_def)

lemma narrow_int_id: "INT_MIN \<le> l \<Longrightarrow> l \<le> INT_MAX \<Longrightarrow> narrow_int l = l"
  unfolding narrow_int_def INT_MIN_def INT_MAX_def
  by (simp add: sint_sbintrunc' signed_take_bit_int_eq_self)


lemma to_int_in_range:
  assumes "\<bar>r\<bar> \<le> real_of_int INT_MAX"
  shows "to_int r = Inr (trunc_to_zero r)"
proof -
  have "INT_MIN \<le> trunc_to_zero r \<and> trunc_to_zero r \<le> INT_MAX"
  proof (cases "0 \<le> r")
    case True
    then have "0 \<le> \<lfloor>r\<rfloor>" by simp
    moreover have "\<lfloor>r\<rfloor> \<le> INT_MAX" using assms True by (simp add: floor_le_iff)
    ultimately show ?thesis using True by (simp add: trunc_to_zero_def INT_MIN_def)
  next
    case False
    then have "\<lceil>r\<rceil> \<le> 0" by (simp add: ceiling_le_iff)
    moreover have "- INT_MAX \<le> \<lceil>r\<rceil>" using assms False by (simp add: le_ceiling_iff)
    ultimately show ?thesis using False
      by (simp add: trunc_to_zero_def INT_MIN_def INT_MAX_def)
  qed
  then show ?thesis by (simp add: to_int_def)
qed

lemma to_int_unat: "to_int (real (unat (c :: 8 word))) = Inr (int (unat c))"
proof -
  have "unat c < 256" using unsigned_less [of c, where ?'a = nat] by simp
  then have "\<bar>real (unat c)\<bar> \<le> real_of_int INT_MAX"
    by (simp add: INT_MAX_def del: of_nat_unat)
  then show ?thesis by (simp add: to_int_in_range trunc_to_zero_def del: of_nat_unat)
qed

lemma straddle_coefficient:
  fixes u v c :: nat
  assumes "(u > c) \<noteq> (v > c)"
  shows "real v - real u \<noteq> 0" and "0 \<le> (real c - real u) / (real v - real u)"
    and "(real c - real u) / (real v - real u) \<le> 1"
proof -
  from assms consider "u \<le> c" "c < v" | "v \<le> c" "c < u" by linarith
  then have "real v - real u \<noteq> 0 \<and> 0 \<le> (real c - real u) / (real v - real u) \<and>
      (real c - real u) / (real v - real u) \<le> 1"
  proof cases
    case 1
    then have "0 < real v - real u" "0 \<le> real c - real u" "real c - real u \<le> real v - real u"
      by simp_all
    then show ?thesis by (simp add: field_simps)
  next
    case 2
    then have "real v - real u < 0" "real c - real u < 0" "real v - real u \<le> real c - real u"
      by simp_all
    then show ?thesis by (simp add: field_simps zero_le_divide_iff)
  qed
  then show "real v - real u \<noteq> 0" and "0 \<le> (real c - real u) / (real v - real u)"
    and "(real c - real u) / (real v - real u) \<le> 1" by simp_all
qed

lemma binary32_byte_difference:
  fixes a b :: "8 word"
  shows "binary32 (real (unat a) - real (unat b)) = real (unat a) - real (unat b)"
proof -
  have "unat a < 256" "unat b < 256"
    using unsigned_less [of a, where ?'a = nat] unsigned_less [of b, where ?'a = nat] by simp_all
  then have "\<bar>int (unat a) - int (unat b)\<bar> \<le> 2 ^ 24"
    by (simp del: of_nat_unat add: abs_le_iff)
  from binary32_of_int [OF this] show ?thesis by (simp del: of_nat_unat)
qed

lemma float_of_int_byte:
  fixes c :: "8 word"
  shows "float_of_int (int (unat c)) = real (unat c)"
proof -
  have "unat c < 256" using unsigned_less [of c, where ?'a = nat] by simp
  then have "\<bar>int (unat c)\<bar> \<le> 2 ^ 24"
    by (simp del: of_nat_unat)
  from float_of_int_small [OF this] show ?thesis by (simp del: of_nat_unat)
qed

lemma coeff_value:
  fixes c v1 v2 :: "8 word"
  assumes "real (unat v2) - real (unat v1) \<noteq> 0"
  shows "coeff (real (unat v1)) (real (unat v2)) (int (unat c)) =
     Inr (binary32 ((real (unat c) - real (unat v1)) / (real (unat v2) - real (unat v1))))"
  using assms
  by (simp only: coeff_def float_div_def float_sub_def float_of_int_byte
      binary32_byte_difference if_False)

text \<open>
  An interpolated coordinate, with its four roundings, stays within twice the bound of
  the two coordinates it lies between.
\<close>

lemma float_lerp_bound:
  assumes q: "0 \<le> q" "q \<le> 1" and a: "\<bar>a\<bar> \<le> 2 ^ 29" and b: "\<bar>b\<bar> \<le> 2 ^ 29"
  shows "\<bar>float_add (float_mul a (float_sub 1 q)) (float_mul b q)\<bar> \<le> real_of_int INT_MAX"
proof -
  define r where "r = float_sub 1 q"
  have r: "0 \<le> r" "r \<le> 1"
    using binary32_unit [of "1 - q"] q by (simp_all add: r_def float_sub_def)
  have "\<bar>a * r\<bar> \<le> 2 ^ 29 * 1"
    unfolding abs_mult using a r by (intro mult_mono) simp_all
  then have "\<bar>a * r\<bar> \<le> 2 ^ 29" by simp
  then have ar: "\<bar>float_mul a r\<bar> \<le> 2 ^ 29"
    unfolding float_mul_def by (rule binary32_bound)
  have "\<bar>b * q\<bar> \<le> 2 ^ 29 * 1"
    unfolding abs_mult using b q by (intro mult_mono) simp_all
  then have "\<bar>b * q\<bar> \<le> 2 ^ 29" by simp
  then have bq: "\<bar>float_mul b q\<bar> \<le> 2 ^ 29"
    unfolding float_mul_def by (rule binary32_bound)
  have "\<bar>float_mul a r + float_mul b q\<bar> \<le> 2 ^ 30"
    using ar bq by simp
  then have "\<bar>float_add (float_mul a r) (float_mul b q)\<bar> \<le> 2 ^ 30"
    unfolding float_add_def by (rule binary32_bound)
  then show ?thesis by (simp add: r_def INT_MAX_def)
qed

lemma add_new_point_emit:
  fixes c :: "8 word"
  assumes m: "indices_map st = Map.empty"
    and i1: "0 \<le> ind1" "ind1 < int (length points)"
    and i2: "0 \<le> ind2" "ind2 < int (length points)"
    and str: "(unat v1 > unat c) \<noteq> (unat v2 > unat c)"
    and bnd: "\<forall>p \<in> set points. \<bar>vec2_x p\<bar> \<le> 2 ^ 29 \<and> \<bar>vec2_y p\<bar> \<le> 2 ^ 29"
  shows "add_new_point v1 ind1 v2 ind2 (real (unat c)) points st =
     Inr (emit st [float_lerp
                     (binary32 ((real (unat c) - real (unat v1)) / (real (unat v2) - real (unat v1))))
                     (points ! nat ind1) (points ! nat ind2)])"
proof -
  define q where
    "q = binary32 ((real (unat c) - real (unat v1)) / (real (unat v2) - real (unat v1)))"
  let ?p1 = "points ! nat ind1" and ?p2 = "points ! nat ind2"
  note sc = straddle_coefficient [OF str]
  have q: "0 \<le> q" "q \<le> 1"
    using binary32_unit [OF sc(2,3)] by (simp_all add: q_def)
  have p1: "?p1 \<in> set points" and p2: "?p2 \<in> set points"
    using i1 i2 by simp_all
  have bx: "\<bar>float_add (float_mul (vec2_x ?p1) (float_sub 1 q)) (float_mul (vec2_x ?p2) q)\<bar>
      \<le> real_of_int INT_MAX"
    using bnd p1 p2 by (intro float_lerp_bound q) blast+
  have by': "\<bar>float_add (float_mul (vec2_y ?p1) (float_sub 1 q)) (float_mul (vec2_y ?p2) q)\<bar>
      \<le> real_of_int INT_MAX"
    using bnd p1 p2 by (intro float_lerp_bound q) blast+
  have co: "coeff (real (unat v1)) (real (unat v2)) (int (unat c)) = Inr q"
    unfolding q_def by (rule coeff_value [OF sc(1)])
  have "add_new_point v1 ind1 v2 ind2 (real (unat c)) points st = Inr (emit st [float_lerp q ?p1 ?p2])"
    using i1 i2 m
    by (simp add: add_new_point_def to_int_unat co vector_at_def Let_def
        to_int_in_range [OF bx] to_int_in_range [OF by'] map_count_def emit_def float_lerp_def
        del: of_nat_unat)
  then show ?thesis by (simp only: q_def)
qed

lemma cell_index_range:
  fixes a b max_x max_y :: int
  assumes "0 \<le> a" "a < max_x" "0 \<le> b" "b < max_y"
  shows "0 \<le> a * max_y + b" and "a * max_y + b < max_x * max_y"
proof -
  have my: "0 \<le> max_y" using assms by simp
  show "0 \<le> a * max_y + b" using assms my by simp
  have "a * max_y + b < a * max_y + max_y" using assms by simp
  also have "\<dots> = (a + 1) * max_y" by (simp add: algebra_simps)
  also have "\<dots> \<le> max_x * max_y" using assms my by (intro mult_right_mono) simp_all
  finally show "a * max_y + b < max_x * max_y" .
qed

lemma guarded_add_new_point:
  fixes c :: "8 word"
  assumes m: "indices_map st = Map.empty"
    and a: "0 \<le> a" "a < int (length points)" "a \<le> INT_MAX"
    and b: "0 \<le> b" "b < int (length points)" "b \<le> INT_MAX"
    and bnd: "\<forall>p \<in> set points. \<bar>vec2_x p\<bar> \<le> 2 ^ 29 \<and> \<bar>vec2_y p\<bar> \<le> 2 ^ 29"
  shows "(if (real (unat (color0 (cols ! nat a))) > real (unat c)) \<noteq>
             (real (unat (color0 (cols ! nat b))) > real (unat c))
          then add_new_point (color0 (cols ! nat a)) (narrow_int a)
                 (color0 (cols ! nat b)) (narrow_int b) (real (unat c)) points st
          else Inr st) = Inr (emit st (edge_points points cols c a b))"
proof -
  have na: "narrow_int a = a" and nb: "narrow_int b = b"
    using a b by (simp_all add: narrow_int_id INT_MIN_def)
  show ?thesis
  proof (cases "exceeds cols c a \<noteq> exceeds cols c b")
    case True
    then have str: "(unat (color0 (cols ! nat a)) > unat c) \<noteq> (unat (color0 (cols ! nat b)) > unat c)"
      by (simp add: exceeds_def)
    from add_new_point_emit [OF m a(1,2) b(1,2) str bnd] True str
    show ?thesis by (simp add: na nb edge_points_def Let_def del: of_nat_unat)
  next
    case False
    then show ?thesis by (simp add: edge_points_def Let_def exceeds_def del: of_nat_unat)
  qed
qed

lemma cell_emit:
  fixes c :: "8 word"
  assumes m: "indices_map st = Map.empty"
    and ok: "grid_ok points cols max_x max_y Cs"
    and i: "0 \<le> i" "i + 1 < max_x" and j: "0 \<le> j" "j + 1 < max_y"
  shows "cell points cols max_y (real (unat c)) i j st =
     Inr (emit st (cell_points points cols max_y c i j))"
proof -
  let ?lu = "i * max_y + j" and ?ru = "(i + 1) * max_y + j"
  let ?ld = "i * max_y + (j + 1)" and ?rd = "(i + 1) * max_y + (j + 1)"
  from ok have len: "max_x * max_y \<le> int (length points)" "max_x * max_y \<le> int (length cols)"
    "max_x * max_y \<le> INT_MAX"
    and bnd: "\<forall>p \<in> set points. \<bar>vec2_x p\<bar> \<le> 2 ^ 29 \<and> \<bar>vec2_y p\<bar> \<le> 2 ^ 29"
    by (simp_all add: grid_ok_def)
  have lu: "0 \<le> ?lu" "?lu < max_x * max_y"
    using cell_index_range [of i max_x j max_y] i j by simp_all
  have ru: "0 \<le> ?ru" "?ru < max_x * max_y"
    using cell_index_range [of "i + 1" max_x j max_y] i j by simp_all
  have ld: "0 \<le> ?ld" "?ld < max_x * max_y"
    using cell_index_range [of i max_x "j + 1" max_y] i j by simp_all
  have rd: "0 \<le> ?rd" "?rd < max_x * max_y"
    using cell_index_range [of "i + 1" max_x "j + 1" max_y] i j by simp_all
  have reads: "vector_at cols ?lu = Inr (cols ! nat ?lu)" "vector_at cols ?ru = Inr (cols ! nat ?ru)"
    "vector_at cols ?ld = Inr (cols ! nat ?ld)" "vector_at cols ?rd = Inr (cols ! nat ?rd)"
    using lu ru ld rd len(2) by (simp_all add: vector_at_def)
  let ?G = "\<lambda>a b st. if (real (unat (color0 (cols ! nat a))) > real (unat c)) \<noteq>
             (real (unat (color0 (cols ! nat b))) > real (unat c))
          then add_new_point (color0 (cols ! nat a)) (narrow_int a)
                 (color0 (cols ! nat b)) (narrow_int b) (real (unat c)) points st
          else Inr st"
  let ?E = "edge_points points cols c"
  have G1: "?G ?lu ?ru st' = Inr (emit st' (?E ?lu ?ru))" if "indices_map st' = Map.empty" for st'
    using lu ru len by (intro guarded_add_new_point that bnd) simp_all
  have G2: "?G ?rd ?ru st' = Inr (emit st' (?E ?rd ?ru))" if "indices_map st' = Map.empty" for st'
    using rd ru len by (intro guarded_add_new_point that bnd) simp_all
  have G3: "?G ?ld ?rd st' = Inr (emit st' (?E ?ld ?rd))" if "indices_map st' = Map.empty" for st'
    using ld rd len by (intro guarded_add_new_point that bnd) simp_all
  have G4: "?G ?ld ?lu st' = Inr (emit st' (?E ?ld ?lu))" if "indices_map st' = Map.empty" for st'
    using ld lu len by (intro guarded_add_new_point that bnd) simp_all
  have chain: "then_do (?G ?lu ?ru st) (\<lambda>st. then_do (?G ?rd ?ru st) (\<lambda>st.
      then_do (?G ?ld ?rd st) (\<lambda>st. ?G ?ld ?lu st))) =
      Inr (emit st (?E ?lu ?ru @ ?E ?rd ?ru @ ?E ?ld ?rd @ ?E ?ld ?lu))"
    by (simp only: G1 G2 G3 G4 m then_do_Inr indices_map_emit emit_emit append_assoc)
  let ?above = "\<lambda>a. real (unat (color0 (cols ! nat a))) > real (unat c)"
  let ?sum = "(of_bool (?above ?lu) + of_bool (?above ?ru) + of_bool (?above ?ld)
                  + of_bool (?above ?rd) :: int)"
  let ?n = "length (filter (exceeds cols c) [?lu, ?ru, ?ld, ?rd])"
  have above: "?above a = exceeds cols c a" for a
    by (simp add: exceeds_def del: of_nat_unat)
  have cond: "(?sum = 0 \<or> ?sum = 4) = (?n = 0 \<or> ?n = 4)"
    unfolding above
    by (cases "exceeds cols c ?lu"; cases "exceeds cols c ?ru"; cases "exceeds cols c ?ld";
        cases "exceeds cols c ?rd"; simp)
  have "cell points cols max_y (real (unat c)) i j st =
      (if ?sum = 0 \<or> ?sum = 4 then Inr st
       else then_do (?G ?lu ?ru st) (\<lambda>st. then_do (?G ?rd ?ru st) (\<lambda>st.
              then_do (?G ?ld ?rd st) (\<lambda>st. ?G ?ld ?lu st))))"
    by (simp only: cell_def reads then_do_Inr Let_def)
  also have "\<dots> = Inr (emit st (cell_points points cols max_y c i j))"
    unfolding chain cond by (simp add: cell_points_def Let_def)
  finally show ?thesis .
qed


lemma for_each_emit:
  assumes "\<And>a st. a \<in> set as \<Longrightarrow> indices_map st = Map.empty \<Longrightarrow> body a st = Inr (emit st (g a))"
    and "indices_map st = Map.empty"
  shows "for_each as body st = Inr (emit st (concat (map g as)))"
  using assms by (induction as arbitrary: st) simp_all

lemma for_int_emit:
  assumes "n \<le> INT_MAX"
    and "\<And>a st. 0 \<le> a \<Longrightarrow> a < n \<Longrightarrow> indices_map st = Map.empty \<Longrightarrow> body a st = Inr (emit st (g a))"
    and "indices_map st = Map.empty"
  shows "for_int n body st = Inr (emit st (concat (map g [0..n - 1])))"
proof -
  have "for_each [0..n - 1] body st = Inr (emit st (concat (map g [0..n - 1])))"
    using assms(2,3) by (intro for_each_emit) simp_all
  then show ?thesis using assms(1) by (simp add: for_int_def)
qed

lemma upto_nat: "[0..int n - 1] = map int [0..<n]"
  by (induction n) (simp_all add: upto_rec2)

lemma map_nth_upto: "map (\<lambda>k. f (xs ! nat k)) [0..int (length xs) - 1] = map f xs"
proof -
  have "map (\<lambda>k. f (xs ! nat k)) [0..int (length xs) - 1] = map f (map ((!) xs) [0..<length xs])"
    by (simp add: upto_nat comp_def)
  then show ?thesis by (simp add: map_nth)
qed

lemma create_isolines_value:
  assumes ok: "grid_ok points cols max_x max_y Cs"
  shows "create_isolines points cols max_x max_y Cs =
     Inr (emit \<lparr>isopoints = [], iso_indices = [], indices_map = Map.empty\<rparr>
            (concat (map (grid_points points cols max_x max_y) Cs)))"
proof -
  from ok have mx: "max_x - 1 \<le> INT_MAX" and my: "max_y - 1 \<le> INT_MAX"
    and cs: "int (length Cs) \<le> INT_MAX"
    by (simp_all add: grid_ok_def)
  have row: "for_int (max_y - 1) (cell points cols max_y (real (unat c)) i) st =
      Inr (emit st (concat (map (cell_points points cols max_y c i) [0..max_y - 2])))"
    if "indices_map st = Map.empty" "0 \<le> i" "i < max_x - 1" for st i and c :: "8 word"
  proof -
    have "for_int (max_y - 1) (cell points cols max_y (real (unat c)) i) st =
      Inr (emit st (concat (map (cell_points points cols max_y c i) [0..max_y - 1 - 1])))"
      using that by (intro for_int_emit my cell_emit [OF _ ok]) simp_all
    then show ?thesis by simp
  qed
  have grid: "for_int (max_x - 1)
        (\<lambda>i. for_int (max_y - 1) (cell points cols max_y (real (unat c)) i)) st =
      Inr (emit st (grid_points points cols max_x max_y c))"
    if "indices_map st = Map.empty" for st and c :: "8 word"
  proof -
    have "for_int (max_x - 1)
        (\<lambda>i. for_int (max_y - 1) (cell points cols max_y (real (unat c)) i)) st =
      Inr (emit st (concat (map (\<lambda>i. concat (map (cell_points points cols max_y c i) [0..max_y - 2]))
               [0..max_x - 1 - 1])))"
      using that by (intro for_int_emit mx row) simp_all
    then show ?thesis by (simp add: grid_points_def)
  qed
  have "create_isolines points cols max_x max_y Cs =
     Inr (emit \<lparr>isopoints = [], iso_indices = [], indices_map = Map.empty\<rparr>
            (concat (map (\<lambda>k. grid_points points cols max_x max_y (Cs ! nat k))
                       [0..int (length Cs) - 1])))"
    unfolding create_isolines_def
    by (intro for_int_emit cs) (simp_all add: vector_at_def Let_def grid del: of_nat_unat)
  then show ?thesis by (simp only: map_nth_upto)
qed

lemma then_do_eq_Inr: "then_do m f = Inr y \<longleftrightarrow> (\<exists>x. m = Inr x \<and> f x = Inr y)"
  by (cases m) simp_all

lemma add_new_point_indexed:
  "indexed st \<Longrightarrow> add_new_point v1 a v2 b border points st = Inr st' \<Longrightarrow> indexed st'"
  by (auto simp: add_new_point_def then_do_eq_Inr Let_def map_count_def indexed_def)

lemma guarded_chain_preserves:
  assumes "(if c then Inr s
            else then_do (if g1 then f1 s else Inr s) (\<lambda>s.
                 then_do (if g2 then f2 s else Inr s) (\<lambda>s.
                 then_do (if g3 then f3 s else Inr s) (\<lambda>s.
                 if g4 then f4 s else Inr s)))) = Inr s'"
    and "P s"
    and "\<And>s s'. P s \<Longrightarrow> f1 s = Inr s' \<Longrightarrow> P s'"
    and "\<And>s s'. P s \<Longrightarrow> f2 s = Inr s' \<Longrightarrow> P s'"
    and "\<And>s s'. P s \<Longrightarrow> f3 s = Inr s' \<Longrightarrow> P s'"
    and "\<And>s s'. P s \<Longrightarrow> f4 s = Inr s' \<Longrightarrow> P s'"
  shows "P s'"
proof (cases c)
  case True
  with assms(1,2) show ?thesis by simp
next
  case False
  with assms(1) obtain s1 s2 s3 where
    e1: "(if g1 then f1 s else Inr s) = Inr s1" and e2: "(if g2 then f2 s1 else Inr s1) = Inr s2" and
    e3: "(if g3 then f3 s2 else Inr s2) = Inr s3" and e4: "(if g4 then f4 s3 else Inr s3) = Inr s'"
    by (auto simp: then_do_eq_Inr)
  have p1: "P s1" using e1 assms(2,3) by (cases g1) auto
  have p2: "P s2" using e2 p1 assms(4) by (cases g2) auto
  have p3: "P s3" using e3 p2 assms(5) by (cases g3) auto
  show ?thesis using e4 p3 assms(6) by (cases g4) auto
qed

lemma cell_indexed:
  assumes "indexed st" "cell points cols max_y border i j st = Inr st'"
  shows "indexed st'"
proof -
  from assms(2) obtain c_lu c_ru c_ld c_rd where
    body: "(let lu = color0 c_lu; lu_ind = i * max_y + j;
           ru = color0 c_ru; ru_ind = (i + 1) * max_y + j;
           ld = color0 c_ld; ld_ind = i * max_y + (j + 1);
           rd = color0 c_rd; rd_ind = (i + 1) * max_y + (j + 1);
           above = (\<lambda>c. real (unat c) > border);
           sum = (of_bool (above lu) + of_bool (above ru) + of_bool (above ld)
                  + of_bool (above rd) :: int)
       in if sum = 0 \<or> sum = 4 then Inr st
          else
            then_do (if above lu \<noteq> above ru
                     then add_new_point lu (narrow_int lu_ind) ru (narrow_int ru_ind) border points st
                     else Inr st) (\<lambda>st.
            then_do (if above rd \<noteq> above ru
                     then add_new_point rd (narrow_int rd_ind) ru (narrow_int ru_ind) border points st
                     else Inr st) (\<lambda>st.
            then_do (if above ld \<noteq> above rd
                     then add_new_point ld (narrow_int ld_ind) rd (narrow_int rd_ind) border points st
                     else Inr st) (\<lambda>st.
            if above ld \<noteq> above lu
            then add_new_point ld (narrow_int ld_ind) lu (narrow_int lu_ind) border points st
            else Inr st)))) = Inr st'"
    unfolding cell_def then_do_eq_Inr by blast
  show ?thesis
    using body [unfolded Let_def] assms(1)
    apply (rule guarded_chain_preserves [where P = indexed])
    apply (erule (1) add_new_point_indexed)+
    done
qed

lemma for_each_preserves:
  assumes "\<And>a s s'. P s \<Longrightarrow> body a s = Inr s' \<Longrightarrow> P s'"
  shows "P s \<Longrightarrow> for_each as body s = Inr s' \<Longrightarrow> P s'"
  by (induction as arbitrary: s) (auto simp: then_do_eq_Inr dest: assms)

lemma for_int_preserves:
  assumes "\<And>a s s'. P s \<Longrightarrow> body a s = Inr s' \<Longrightarrow> P s'"
    and "P s" and "for_int n body s = Inr s'"
  shows "P s'"
proof (cases "n \<le> INT_MAX")
  case True
  with assms(3) have "for_each [0..n - 1] body s = Inr s'"
    by (simp add: for_int_def)
  with assms(2) show ?thesis
    by (rule for_each_preserves [rotated]) (erule (1) assms(1))
next
  case False
  with assms(3) have "then_do (for_each [0..INT_MAX] body s) (\<lambda>s'. Inl SignedOverflow) = Inr s'"
    by (simp add: for_int_def)
  then show ?thesis
    by (simp add: then_do_eq_Inr)
qed

lemma create_isolines_indexed:
  assumes "create_isolines points cols max_x max_y Cs = Inr st"
  shows "indexed st"
proof -
  have rowp: "indexed s'" if "indexed s"
    "for_int (max_y - 1) (cell points cols max_y border i) s = Inr s'" for border i s s'
    using that(1,2)
    by (rule for_int_preserves [where P = indexed, rotated]) (erule (1) cell_indexed)
  have gridp: "indexed s'" if "indexed s"
    "for_int (max_x - 1) (\<lambda>i. for_int (max_y - 1) (cell points cols max_y border i)) s = Inr s'"
    for border s s'
    using that(1,2)
    by (rule for_int_preserves [where P = indexed, rotated]) (erule (1) rowp)
  have bodyp: "indexed s'" if "indexed s"
    "then_do (vector_at Cs k) (\<lambda>c. let border = real (unat c)
          in for_int (max_x - 1)
               (\<lambda>i. for_int (max_y - 1) (cell points cols max_y border i)) s) = Inr s'"
    for k s s'
  proof -
    from that(2) have "\<exists>c :: 8 word. for_int (max_x - 1)
         (\<lambda>i. for_int (max_y - 1) (cell points cols max_y (real (unat c)) i)) s = Inr s'"
      unfolding then_do_eq_Inr Let_def by blast
    then show ?thesis using gridp [OF that(1)] by (elim exE)
  qed
  have init: "indexed \<lparr>isopoints = [], iso_indices = [], indices_map = Map.empty\<rparr>"
    by (simp add: indexed_def)
  from init assms [unfolded create_isolines_def] show ?thesis
    by (rule for_int_preserves [where P = indexed, rotated]) (erule (1) bodyp)
qed

lemma unat_indices:
  "n \<le> 2 ^ 32 \<Longrightarrow> map unat (map word_of_nat [0..<n] :: 32 word list) = [0..<n]"
proof -
  assume n: "n \<le> 2 ^ 32"
  have "unat (word_of_nat k :: 32 word) = k" if "k < n" for k
    using that n by (simp add: unat_of_nat)
  then have "map (\<lambda>k. unat (word_of_nat k :: 32 word)) [0..<n] = map (\<lambda>k. k) [0..<n]"
    by (intro map_cong) simp_all
  then show ?thesis by (simp add: comp_def)
qed

lemma grid2_ok: "grid_ok grid2_points grid2_colours 2 2 [50]"
  by (simp add: grid_ok_def grid2_points_def grid2_colours_def INT_MAX_def)

text \<open>
  The roundings on the grid of two by two points: the quotient \<open>5 / 9\<close> is not a number
  of the format, the other results are.
\<close>

lemma binary32_five_ninths: "binary32 (5 / 9) = 2330169 / 4194304"
  by (subst binary32_eval [of "- 1"]) (simp_all add: round_even_def powr_neg_numeral)

lemma grid2_roundings:
  "binary32 (1864135 / 4194304) = 1864135 / 4194304"
  "binary32 (2330169 / 4194304) = 2330169 / 4194304"
  "binary32 (- (1864135 / 4194304)) = - (1864135 / 4194304)"
  "binary32 (- (2330169 / 4194304)) = - (2330169 / 4194304)"
  "binary32 (- (233017 / 2097152)) = - (233017 / 2097152)"
  "binary32 (- 1) = - 1"
  using binary32_dyadic [of 1864135 22] binary32_dyadic [of 2330169 22]
    binary32_dyadic [of "- 1864135" 22] binary32_dyadic [of "- 2330169" 22]
    binary32_dyadic [of "- 233017" 21] binary32_of_int [of "- 1"]
  by simp_all

lemma grid2_isopoints:
  "concat (map (grid_points grid2_points grid2_colours 2 2) [50]) =
     [\<lparr>vec2_x = 1, vec2_y = - (233017 / 2097152)\<rparr>,
      \<lparr>vec2_x = - 1, vec2_y = - (233017 / 2097152)\<rparr>]"
  by (simp add: grid_points_def cell_points_def edge_points_def exceeds_def color0_def
      grid2_points_def grid2_colours_def float_lerp_def float_add_def float_sub_def float_mul_def
      binary32_five_ninths grid2_roundings Let_def)

text \<open>
  Claim C2 says that the point appended for an edge is equal to the linear interpolation
  of the two corner positions with the coefficient \<open>(threshold - v1) / (v2 - v1)\<close>. On the
  grid of two by two points, with the threshold \<open>50\<close> between the corner values \<open>100\<close>
  and \<open>10\<close>, that interpolation has the ordinate \<open>- 1 / 9\<close>, and \<open>create_isolines\<close> appends
  the ordinate \<open>- 233017 / 2097152\<close>: the quotient \<open>5 / 9\<close> is rounded to a \<open>float\<close>.
\<close>

theorem create_isolines_rounds_the_interpolation:
  "create_isolines grid2_points grid2_colours 2 2 [50] =
     Inr \<lparr>isopoints = [\<lparr>vec2_x = 1, vec2_y = - (233017 / 2097152)\<rparr>,
                       \<lparr>vec2_x = - 1, vec2_y = - (233017 / 2097152)\<rparr>],
          iso_indices = [0, 1], indices_map = Map.empty\<rparr> \<and>
   lerp ((50 - 100) / (10 - 100)) (grid2_points ! 3) (grid2_points ! 2) =
     \<lparr>vec2_x = 1, vec2_y = - (1 / 9)\<rparr> \<and>
   lerp ((50 - 100) / (10 - 100)) (grid2_points ! 1) (grid2_points ! 0) =
     \<lparr>vec2_x = - 1, vec2_y = - (1 / 9)\<rparr> \<and>
   (- (233017 / 2097152) :: real) \<noteq> - (1 / 9)"
proof -
  have two: "[0..<2] = [0, Suc 0]"
    by (simp add: upt_rec)
  have "create_isolines grid2_points grid2_colours 2 2 [50] =
     Inr (emit \<lparr>isopoints = [], iso_indices = [], indices_map = Map.empty\<rparr>
            (concat (map (grid_points grid2_points grid2_colours 2 2) [50])))"
    by (rule create_isolines_value [OF grid2_ok])
  then have "create_isolines grid2_points grid2_colours 2 2 [50] =
     Inr \<lparr>isopoints = [\<lparr>vec2_x = 1, vec2_y = - (233017 / 2097152)\<rparr>,
                       \<lparr>vec2_x = - 1, vec2_y = - (233017 / 2097152)\<rparr>],
          iso_indices = [0, 1], indices_map = Map.empty\<rparr>"
    unfolding grid2_isopoints by (simp add: emit_def two)
  then show ?thesis
    by (simp add: lerp_def grid2_points_def)
qed

text \<open>
  Claim C2, as amended. On a well-formed grid \<open>create_isolines\<close> returns, and \<open>isopoints\<close>
  is the concatenation, over the thresholds and the cells in loop order, of the points
  of each cell: none when the number of corners above the threshold is \<open>0\<close> or \<open>4\<close>;
  otherwise the points of the four tested edges in order, an edge giving no point when
  its corners lie on the same side and exactly one when they lie on opposite sides. The
  divisor \<open>v2 - v1\<close> is then not zero, and the point is \<open>p1 * (1 - q) + p2 * q\<close> as the
  float operations compute it, each of them rounded, where \<open>q\<close> is the quotient
  \<open>(threshold - v1) / (v2 - v1)\<close> rounded to a \<open>float\<close> and lies between \<open>0\<close> and \<open>1\<close>.
\<close>

theorem create_isolines_points:
  assumes "grid_ok points cols max_x max_y Cs"
  shows "(\<exists>st. create_isolines points cols max_x max_y Cs = Inr st \<and>
            isopoints st =
              concat (map (\<lambda>c. concat (map (\<lambda>i. concat (map (\<lambda>j.
                 cell_points points cols max_y c i j) [0..max_y - 2])) [0..max_x - 2])) Cs)) \<and>
         (\<forall>c i j. length (filter (exceeds cols c)
                       [i * max_y + j, (i + 1) * max_y + j,
                        i * max_y + (j + 1), (i + 1) * max_y + (j + 1)]) \<in> {0, 4} \<longrightarrow>
              cell_points points cols max_y c i j = []) \<and>
         (\<forall>c i j. length (filter (exceeds cols c)
                       [i * max_y + j, (i + 1) * max_y + j,
                        i * max_y + (j + 1), (i + 1) * max_y + (j + 1)]) \<notin> {0, 4} \<longrightarrow>
              cell_points points cols max_y c i j =
                edge_points points cols c (i * max_y + j) ((i + 1) * max_y + j) @
                edge_points points cols c ((i + 1) * max_y + (j + 1)) ((i + 1) * max_y + j) @
                edge_points points cols c (i * max_y + (j + 1)) ((i + 1) * max_y + (j + 1)) @
                edge_points points cols c (i * max_y + (j + 1)) (i * max_y + j)) \<and>
         (\<forall>c a b. exceeds cols c a = exceeds cols c b \<longrightarrow> edge_points points cols c a b = []) \<and>
         (\<forall>c a b. exceeds cols c a \<noteq> exceeds cols c b \<longrightarrow>
              real (unat (color0 (cols ! nat b))) - real (unat (color0 (cols ! nat a))) \<noteq> 0 \<and>
              (\<exists>q. q = binary32 ((real (unat c) - real (unat (color0 (cols ! nat a)))) /
                       (real (unat (color0 (cols ! nat b))) - real (unat (color0 (cols ! nat a))))) \<and>
                   0 \<le> q \<and> q \<le> 1 \<and>
                   edge_points points cols c a b =
                     [\<lparr>vec2_x = binary32 (binary32 (vec2_x (points ! nat a) * binary32 (1 - q)) +
                                          binary32 (vec2_x (points ! nat b) * q)),
                       vec2_y = binary32 (binary32 (vec2_y (points ! nat a) * binary32 (1 - q)) +
                                          binary32 (vec2_y (points ! nat b) * q))\<rparr>]))"
proof -
  have "create_isolines points cols max_x max_y Cs =
     Inr (emit \<lparr>isopoints = [], iso_indices = [], indices_map = Map.empty\<rparr>
            (concat (map (grid_points points cols max_x max_y) Cs)))"
    by (rule create_isolines_value [OF assms])
  then have run: "\<exists>st. create_isolines points cols max_x max_y Cs = Inr st \<and>
            isopoints st =
              concat (map (\<lambda>c. concat (map (\<lambda>i. concat (map (\<lambda>j.
                 cell_points points cols max_y c i j) [0..max_y - 2])) [0..max_x - 2])) Cs)"
    by (simp add: emit_def grid_points_def [abs_def])
  have same: "\<forall>c i j. length (filter (exceeds cols c)
                       [i * max_y + j, (i + 1) * max_y + j,
                        i * max_y + (j + 1), (i + 1) * max_y + (j + 1)]) \<in> {0, 4} \<longrightarrow>
              cell_points points cols max_y c i j = []"
    by (simp add: cell_points_def Let_def)
  have mixed: "\<forall>c i j. length (filter (exceeds cols c)
                       [i * max_y + j, (i + 1) * max_y + j,
                        i * max_y + (j + 1), (i + 1) * max_y + (j + 1)]) \<notin> {0, 4} \<longrightarrow>
              cell_points points cols max_y c i j =
                edge_points points cols c (i * max_y + j) ((i + 1) * max_y + j) @
                edge_points points cols c ((i + 1) * max_y + (j + 1)) ((i + 1) * max_y + j) @
                edge_points points cols c (i * max_y + (j + 1)) ((i + 1) * max_y + (j + 1)) @
                edge_points points cols c (i * max_y + (j + 1)) (i * max_y + j)"
    by (simp add: cell_points_def Let_def)
  have none: "\<forall>c a b. exceeds cols c a = exceeds cols c b \<longrightarrow> edge_points points cols c a b = []"
    by (simp add: edge_points_def Let_def)
  have one: "\<forall>c a b. exceeds cols c a \<noteq> exceeds cols c b \<longrightarrow>
              real (unat (color0 (cols ! nat b))) - real (unat (color0 (cols ! nat a))) \<noteq> 0 \<and>
              (\<exists>q. q = binary32 ((real (unat c) - real (unat (color0 (cols ! nat a)))) /
                       (real (unat (color0 (cols ! nat b))) - real (unat (color0 (cols ! nat a))))) \<and>
                   0 \<le> q \<and> q \<le> 1 \<and>
                   edge_points points cols c a b =
                     [\<lparr>vec2_x = binary32 (binary32 (vec2_x (points ! nat a) * binary32 (1 - q)) +
                                          binary32 (vec2_x (points ! nat b) * q)),
                       vec2_y = binary32 (binary32 (vec2_y (points ! nat a) * binary32 (1 - q)) +
                                          binary32 (vec2_y (points ! nat b) * q))\<rparr>])"
  proof (intro allI impI conjI)
    fix c a b assume str: "exceeds cols c a \<noteq> exceeds cols c b"
    then have "(unat c < unat (color0 (cols ! nat a))) \<noteq> (unat c < unat (color0 (cols ! nat b)))"
      by (simp add: exceeds_def)
    note sc = straddle_coefficient [OF this]
    show "real (unat (color0 (cols ! nat b))) - real (unat (color0 (cols ! nat a))) \<noteq> 0"
      by (rule sc(1))
    define q where "q = binary32 ((real (unat c) - real (unat (color0 (cols ! nat a)))) /
                       (real (unat (color0 (cols ! nat b))) - real (unat (color0 (cols ! nat a)))))"
    have unit: "0 \<le> q" "q \<le> 1"
      using binary32_unit [OF sc(2,3)] by (simp_all add: q_def)
    have "edge_points points cols c a b = [float_lerp q (points ! nat a) (points ! nat b)]"
      using str by (simp add: edge_points_def Let_def q_def del: of_nat_unat)
    then have "edge_points points cols c a b =
                     [\<lparr>vec2_x = binary32 (binary32 (vec2_x (points ! nat a) * binary32 (1 - q)) +
                                          binary32 (vec2_x (points ! nat b) * q)),
                       vec2_y = binary32 (binary32 (vec2_y (points ! nat a) * binary32 (1 - q)) +
                                          binary32 (vec2_y (points ! nat b) * q))\<rparr>]"
      by (simp add: float_lerp_def float_add_def float_sub_def float_mul_def)
    with unit q_def
    show "\<exists>q. q = binary32 ((real (unat c) - real (unat (color0 (cols ! nat a)))) /
                       (real (unat (color0 (cols ! nat b))) - real (unat (color0 (cols ! nat a))))) \<and>
                   0 \<le> q \<and> q \<le> 1 \<and>
                   edge_points points cols c a b =
                     [\<lparr>vec2_x = binary32 (binary32 (vec2_x (points ! nat a) * binary32 (1 - q)) +
                                          binary32 (vec2_x (points ! nat b) * q)),
                       vec2_y = binary32 (binary32 (vec2_y (points ! nat a) * binary32 (1 - q)) +
                                          binary32 (vec2_y (points ! nat b) * q))\<rparr>]"
      by (intro exI [of _ q] conjI)
  qed
  from run same mixed none one show ?thesis by (intro conjI)
qed

text \<open>
  On a grid of two by two points whose coordinates and coefficient are numbers of the
  format (the threshold \<open>55\<close> halfway between \<open>10\<close> and \<open>100\<close>), the two points are the
  midpoints of the two edges that the isoline crosses.
\<close>

theorem create_isolines_points_witness:
  "grid_ok grid2_points grid2_colours 2 2 [55] \<and>
   (\<exists>st. create_isolines grid2_points grid2_colours 2 2 [55] = Inr st \<and>
      isopoints st = [\<lparr>vec2_x = 1, vec2_y = 0\<rparr>, \<lparr>vec2_x = - 1, vec2_y = 0\<rparr>])"
proof -
  have ok: "grid_ok grid2_points grid2_colours 2 2 [55]"
    by (simp add: grid_ok_def grid2_points_def grid2_colours_def INT_MAX_def)
  have half: "binary32 (1 / 2) = 1 / 2" "binary32 (- (1 / 2)) = - (1 / 2)" "binary32 (- 1) = - 1"
    using binary32_dyadic [of 1 1] binary32_dyadic [of "- 1" 1] binary32_of_int [of "- 1"]
    by simp_all
  from create_isolines_points [OF ok, THEN conjunct1]
  obtain st where st: "create_isolines grid2_points grid2_colours 2 2 [55] = Inr st"
    "isopoints st = concat (map (\<lambda>c. concat (map (\<lambda>i. concat (map (\<lambda>j.
                 cell_points grid2_points grid2_colours 2 c i j) [0..2 - 2])) [0..2 - 2])) [55])"
    by (elim exE conjE)
  have "isopoints st = [\<lparr>vec2_x = 1, vec2_y = 0\<rparr>, \<lparr>vec2_x = - 1, vec2_y = 0\<rparr>]"
    unfolding st(2)
    by (simp add: cell_points_def edge_points_def exceeds_def color0_def
      grid2_points_def grid2_colours_def float_lerp_def float_add_def float_sub_def float_mul_def
      half Let_def)
  then show ?thesis
    by (intro conjI ok exI [of _ st] st(1))
qed

text \<open>
  Claim C10. \<open>create_isolines\<close> returns on every well-formed grid, and whenever it
  returns, \<open>iso_indices\<close> holds one index for each point of \<open>isopoints\<close>, the \<open>k\<close>-th
  being \<open>k\<close> as an \<open>unsigned int\<close>: the sequence \<open>0, 1, \<dots>, isopoints.size() - 1\<close> as long as
  there are at most \<open>2 ^ 32\<close> points.
\<close>

theorem iso_indices_identity:
  "(grid_ok points cols max_x max_y Cs \<longrightarrow>
      (\<exists>st. create_isolines points cols max_x max_y Cs = Inr st)) \<and>
   (create_isolines points cols max_x max_y Cs = Inr st \<longrightarrow>
      iso_indices st = map word_of_nat [0..<length (isopoints st)] \<and>
      length (iso_indices st) = length (isopoints st) \<and>
      (length (isopoints st) \<le> 2 ^ 32 \<longrightarrow>
         map unat (iso_indices st) = [0..<length (isopoints st)]))"
proof (intro conjI impI)
  assume "grid_ok points cols max_x max_y Cs"
  then show "\<exists>st. create_isolines points cols max_x max_y Cs = Inr st"
    by (simp add: create_isolines_value)
next
  assume "create_isolines points cols max_x max_y Cs = Inr st"
  then have ix: "indexed st" by (rule create_isolines_indexed)
  then show eq: "iso_indices st = map word_of_nat [0..<length (isopoints st)]"
    by (simp add: indexed_def)
  then show "length (iso_indices st) = length (isopoints st)"
    by simp
  assume "length (isopoints st) \<le> 2 ^ 32"
  then show "map unat (iso_indices st) = [0..<length (isopoints st)]"
    unfolding eq by (rule unat_indices)
qed

theorem iso_indices_identity_witness:
  "\<exists>st. create_isolines grid2_points grid2_colours 2 2 [50] = Inr st \<and>
     length (isopoints st) = 2 \<and> iso_indices st = [0, 1] \<and> map unat (iso_indices st) = [0, 1]"
proof -
  define st where "st = emit \<lparr>isopoints = [], iso_indices = [], indices_map = Map.empty\<rparr>
            (concat (map (grid_points grid2_points grid2_colours 2 2) [50]))"
  have run: "create_isolines grid2_points grid2_colours 2 2 [50] = Inr st"
    unfolding st_def by (rule create_isolines_value [OF grid2_ok])
  have len: "length (isopoints st) = 2"
    unfolding st_def grid2_isopoints by (simp add: emit_def)
  have two: "[0..<2] = [0, Suc 0]"
    by (simp add: upt_rec)
  note th = iso_indices_identity [of grid2_points grid2_colours 2 2 "[50]" st,
      THEN conjunct2, rule_format, OF run]
  have a: "iso_indices st = map word_of_nat [0..<2]"
    using th [THEN conjunct1] len by simp
  have c: "map unat (iso_indices st) = [0..<2]"
    using th [THEN conjunct2, THEN conjunct2] len by simp
  have i: "iso_indices st = [0, 1]"
    using a unfolding two by simp
  have u: "map unat (iso_indices st) = [0, 1]"
    using c unfolding two by simp
  show ?thesis
    by (rule exI [of _ st]) (intro conjI run len i u)
qed


section \<open>The level-of-detail program\<close>

lemma float_square:
  assumes "\<bar>x\<bar> \<le> 2 ^ 29"
  shows "0 \<le> float_mul x x \<and> float_mul x x \<le> 2 ^ 58"
proof -
  have "\<bar>x * x\<bar> \<le> 2 ^ 29 * 2 ^ 29"
    unfolding abs_mult using assms by (intro mult_mono) simp_all
  then have "\<bar>x * x\<bar> \<le> 2 ^ 58" by simp
  then have "\<bar>float_mul x x\<bar> \<le> 2 ^ 58"
    unfolding float_mul_def by (rule binary32_bound)
  moreover have "0 \<le> float_mul x x"
    unfolding float_mul_def by (rule binary32_nonneg) simp
  ultimately show ?thesis by simp
qed

lemma float_add_nonneg:
  assumes "0 \<le> a" "a \<le> 2 ^ n" "0 \<le> b" "b \<le> 2 ^ n"
  shows "0 \<le> float_add a b \<and> float_add a b \<le> 2 ^ Suc n"
proof -
  have "\<bar>a + b\<bar> \<le> 2 ^ Suc n" using assms by simp
  then have "\<bar>float_add a b\<bar> \<le> 2 ^ Suc n"
    unfolding float_add_def by (rule binary32_bound)
  moreover have "0 \<le> float_add a b"
    unfolding float_add_def using assms by (intro binary32_nonneg) simp
  ultimately show ?thesis by simp
qed

lemma glm_length_bound:
  assumes "\<bar>vec3_x v\<bar> \<le> 2 ^ 29" "\<bar>vec3_y v\<bar> \<le> 2 ^ 29" "\<bar>vec3_z v\<bar> \<le> 2 ^ 29"
  shows "0 \<le> glm_length v \<and> glm_length v \<le> 2 ^ 30"
proof -
  let ?xx = "float_mul (vec3_x v) (vec3_x v)" and ?yy = "float_mul (vec3_y v) (vec3_y v)"
  let ?zz = "float_mul (vec3_z v) (vec3_z v)"
  note x = float_square [OF assms(1)] and y = float_square [OF assms(2)]
    and z = float_square [OF assms(3)]
  have xy: "0 \<le> float_add ?xx ?yy \<and> float_add ?xx ?yy \<le> 2 ^ 59"
    using float_add_nonneg [of ?xx 58 ?yy] x y by simp
  have z': "?zz \<le> 2 ^ 59" using z by simp
  have xyz: "0 \<le> float_add (float_add ?xx ?yy) ?zz \<and> float_add (float_add ?xx ?yy) ?zz \<le> 2 ^ 60"
    using float_add_nonneg [of "float_add ?xx ?yy" 59 ?zz] xy z z' by simp
  have "sqrt (float_add (float_add ?xx ?yy) ?zz) \<le> sqrt ((2 ^ 30)\<^sup>2)"
    using xyz by (intro real_sqrt_le_mono) simp
  then have "sqrt (float_add (float_add ?xx ?yy) ?zz) \<le> 2 ^ 30"
    by (simp only: real_sqrt_abs) simp
  moreover have "0 \<le> sqrt (float_add (float_add ?xx ?yy) ?zz)"
    using xyz by simp
  ultimately have root: "\<bar>sqrt (float_add (float_add ?xx ?yy) ?zz)\<bar> \<le> 2 ^ 30"
    "0 \<le> sqrt (float_add (float_add ?xx ?yy) ?zz)"
    by simp_all
  have "\<bar>glm_length v\<bar> \<le> 2 ^ 30"
    unfolding glm_length_def float_sqrt_def using root(1) by (rule binary32_bound)
  moreover have "0 \<le> glm_length v"
    unfolding glm_length_def float_sqrt_def using root(2) by (rule binary32_nonneg)
  ultimately show ?thesis by simp
qed

lemma float_of_int_fixed_lod_value: "float_of_int fixed_lod_value = 1"
  by (simp add: float_of_int_def fixed_lod_value_def)

lemma float_distance_glm_length:
  "float_distance c t = glm_length (vec3_minus t c)"
  by (simp add: float_distance_def float_of_int_fixed_lod_value glm_length_def float_sqrt_def)

lemma float_distance_in_range:
  assumes "camera_ok c" "- 16 \<le> i" "i \<le> 15" "- 16 \<le> j" "j \<le> 15"
  shows "0 \<le> float_distance c (grid_translation i j) \<and>
         float_distance c (grid_translation i j) \<le> 2 ^ 30"
proof -
  let ?v = "vec3_minus (grid_translation i j) c"
  have "\<bar>real_of_int i - vec3_x c\<bar> \<le> 2 ^ 29" "\<bar>0 - vec3_y c\<bar> \<le> 2 ^ 29"
    "\<bar>real_of_int j - vec3_z c\<bar> \<le> 2 ^ 29"
    using assms by (simp_all add: camera_ok_def abs_le_iff)
  then have "\<bar>vec3_x ?v\<bar> \<le> 2 ^ 29" "\<bar>vec3_y ?v\<bar> \<le> 2 ^ 29" "\<bar>vec3_z ?v\<bar> \<le> 2 ^ 29"
    unfolding vec3_minus_def grid_translation_def float_sub_def
    by (simp_all only: vec3.simps binary32_bound)
  then show ?thesis
    unfolding float_distance_glm_length by (rule glm_length_bound)
qed

lemma grid_translation_float:
  assumes "- 16 \<le> i" "i \<le> 15" "- 16 \<le> j" "j \<le> 15"
  shows "\<lparr>vec3_x = float_mul 1 (float_of_int i), vec3_y = 0,
          vec3_z = float_mul 1 (float_of_int j)\<rparr> = grid_translation i j"
proof -
  have "\<bar>i\<bar> \<le> 2 ^ 24" "\<bar>j\<bar> \<le> 2 ^ 24" using assms by simp_all
  then show ?thesis
    by (simp add: grid_translation_def float_mul_def float_of_int_small binary32_of_int)
qed

lemma place_instance_value:
  assumes "meshes \<noteq> []" "camera_ok c" "- 16 \<le> i" "i \<le> 15" "- 16 \<le> j" "j \<le> 15"
  shows "place_instance intersect f meshes c i j instances =
     Inr (if passes intersect f meshes (grid_translation i j)
          then instances[lod_bucket c (grid_translation i j) :=
                 instances ! lod_bucket c (grid_translation i j) @ [grid_translation i j]]
          else instances)"
proof -
  let ?t = "grid_translation i j"
  let ?d = "float_distance c ?t"
  note range = float_distance_in_range [OF assms(2-)]
  have m0: "vector_at meshes 0 = Inr (meshes ! 0)"
    using assms(1) by (simp add: vector_at_def)
  have d: "float_div (glm_length (vec3_minus ?t c)) (float_of_int fixed_lod_value) = Inr ?d"
    by (simp add: float_div_def float_distance_def float_of_int_fixed_lod_value)
  have "\<bar>?d\<bar> \<le> real_of_int INT_MAX"
    using range by (simp add: INT_MAX_def)
  then have n: "to_int ?d = Inr \<lfloor>?d\<rfloor>"
    using to_int_in_range [of ?d] range by (simp add: trunc_to_zero_def)
  note t = grid_translation_float [OF assms(3-)]
  have b: "nat (max 0 (min 5 \<lfloor>?d\<rfloor>)) = lod_bucket c ?t"
    by (simp add: lod_bucket_def)
  show ?thesis
    unfolding place_instance_def t Let_def
    by (simp only: m0 d n b then_do_Inr passes_def if_distrib [of Inr] cong: if_cong)
qed


lemma for_each_map: "for_each (map h xs) body s = for_each xs (\<lambda>a. body (h a)) s"
  by (induction xs arbitrary: s) (simp_all add: then_do_def split: sum.splits)

lemma for_each_product:
  "for_each xs (\<lambda>i. for_each ys (body i)) s =
   for_each (List.product xs ys) (\<lambda>p. body (fst p) (snd p)) s"
proof (induction xs arbitrary: s)
  case Nil
  show ?case by simp
next
  case (Cons x xs)
  have "for_each (List.product (x # xs) ys) (\<lambda>p. body (fst p) (snd p)) s =
      then_do (for_each ys (body x) s) (for_each (List.product xs ys) (\<lambda>p. body (fst p) (snd p)))"
    by (simp add: for_each_append for_each_map)
  also have "\<dots> = then_do (for_each ys (body x) s) (for_each xs (\<lambda>i. for_each ys (body i)))"
    by (cases "for_each ys (body x) s") (simp_all add: Cons.IH)
  finally show ?case by simp
qed

lemma for_each_buckets:
  assumes "\<And>p s. p \<in> set ps \<Longrightarrow>
      body p s = Inr (if vis p then s[bucket p := s ! bucket p @ [tr p]] else s)"
    and "\<And>p. p \<in> set ps \<Longrightarrow> bucket p < length instances"
  shows "\<exists>r. for_each ps body instances = Inr r \<and> length r = length instances \<and>
     (\<forall>b < length instances.
        r ! b = instances ! b @ map tr (filter (\<lambda>p. vis p \<and> bucket p = b) ps))"
  using assms
proof (induction ps arbitrary: instances)
  case Nil
  show ?case by simp
next
  case (Cons p ps)
  let ?s1 = "if vis p then instances[bucket p := instances ! bucket p @ [tr p]] else instances"
  have len1: "length ?s1 = length instances" by simp
  have first: "body p instances = Inr ?s1"
    by (rule Cons.prems(1)) simp
  have "\<exists>r. for_each ps body ?s1 = Inr r \<and> length r = length ?s1 \<and>
     (\<forall>b < length ?s1. r ! b = ?s1 ! b @ map tr (filter (\<lambda>p. vis p \<and> bucket p = b) ps))"
    by (rule Cons.IH) (simp_all add: Cons.prems)
  then obtain r where r: "for_each ps body ?s1 = Inr r" "length r = length instances"
    "\<And>b. b < length instances \<Longrightarrow>
        r ! b = ?s1 ! b @ map tr (filter (\<lambda>p. vis p \<and> bucket p = b) ps)"
    unfolding len1 by blast
  have "r ! b = instances ! b @ map tr (filter (\<lambda>p. vis p \<and> bucket p = b) (p # ps))"
    if "b < length instances" for b
    using r(3) [OF that] that by (simp add: nth_list_update)
  with r(1,2) first show ?case by simp
qed

lemma count_list_map_filter:
  assumes "distinct ps" "inj_on tr (set ps)" "p \<in> set ps"
  shows "count_list (map tr (filter P ps)) (tr p) = (if P p then 1 else 0)"
  using assms
proof (induction ps)
  case Nil
  then show ?case by simp
next
  case (Cons a ps)
  show ?case
  proof (cases "a = p")
    case True
    then have "p \<notin> set ps" using Cons.prems(1) by simp
    then have "tr p \<notin> tr ` set (filter P ps)"
      using Cons.prems(2) True by (auto simp: inj_on_def)
    then have "count_list (map tr (filter P ps)) (tr p) = 0"
      by (simp add: count_list_0_iff)
    then show ?thesis using True by simp
  next
    case False
    then have p: "p \<in> set ps" using Cons.prems(3) by simp
    have ne: "tr a \<noteq> tr p" using Cons.prems(2,3) False by (auto simp: inj_on_def)
    have "count_list (map tr (filter P ps)) (tr p) = (if P p then 1 else 0)"
      using Cons.prems p by (intro Cons.IH) (auto simp: inj_on_def)
    then show ?thesis using ne by simp
  qed
qed

lemma select_instances_value:
  assumes "meshes \<noteq> []" "camera_ok c"
  shows "\<exists>r. select_instances intersect f meshes c = Inr r \<and> length r = 6 \<and>
     (\<forall>b < 6. r ! b = map (\<lambda>p. grid_translation (fst p) (snd p))
        (filter (\<lambda>p. passes intersect f meshes (grid_translation (fst p) (snd p)) \<and>
                     lod_bucket c (grid_translation (fst p) (snd p)) = b)
           (List.product [- 16..15] [- 16..15])))"
proof -
  let ?tr = "\<lambda>p. grid_translation (fst p) (snd p)"
  have bucket: "lod_bucket c t < 6" for t
    by (simp add: lod_bucket_def)
  have "\<exists>r. for_each (List.product [- 16..15] [- 16..15])
          (\<lambda>p. place_instance intersect f meshes c (fst p) (snd p)) (replicate 6 []) = Inr r \<and>
        length r = length (replicate 6 ([] :: vec3 list)) \<and>
        (\<forall>b < length (replicate 6 ([] :: vec3 list)).
           r ! b = replicate 6 [] ! b @ map ?tr
             (filter (\<lambda>p. passes intersect f meshes (?tr p) \<and> lod_bucket c (?tr p) = b)
                (List.product [- 16..15] [- 16..15])))"
  proof (rule for_each_buckets)
    fix p :: "int \<times> int" and s :: "vec3 list list"
    assume "p \<in> set (List.product [- 16..15] [- 16..15])"
    then have "fst p \<in> {- 16..15} \<and> snd p \<in> {- 16..15}"
      by (simp only: set_product set_upto mem_Times_iff)
    then have "- 16 \<le> fst p" "fst p \<le> 15" "- 16 \<le> snd p" "snd p \<le> 15"
      by (simp_all only: atLeastAtMost_iff)
    from place_instance_value [OF assms this]
    show "place_instance intersect f meshes c (fst p) (snd p) s =
        Inr (if passes intersect f meshes (?tr p)
             then s[lod_bucket c (?tr p) := s ! lod_bucket c (?tr p) @ [?tr p]] else s)" .
  next
    fix p :: "int \<times> int"
    show "lod_bucket c (?tr p) < length (replicate 6 ([] :: vec3 list))"
      using bucket by simp
  qed
  then show ?thesis
    by (simp add: select_instances_def for_each_product)
qed

lemma draw_lods_value:
  assumes "6 \<le> length meshes" "length vaos = length meshes" "length instances = 6"
  shows "draw_lods meshes vaos instances =
     Inr (map (\<lambda>lod. \<lparr>bound_vao = vaos ! lod, mesh_number = lod,
                       index_count = indices_count (meshes ! lod), uploaded = instances ! lod,
                       instance_count = length (instances ! lod)\<rparr>) [0..<6])"
proof -
  let ?g = "\<lambda>lod. \<lparr>bound_vao = vaos ! nat lod, mesh_number = nat lod,
                       index_count = indices_count (meshes ! nat lod), uploaded = instances ! nat lod,
                       instance_count = length (instances ! nat lod)\<rparr>"
  have "draw_lods meshes vaos instances = Inr ([] @ map ?g [0..5])"
    unfolding draw_lods_def
    using assms by (intro for_each_append_one) (simp add: vector_at_def)
  moreover have "[0..5] = map int [0..<6]"
    using upto_nat [of 6] by simp
  ultimately show ?thesis by (simp add: comp_def)
qed


lemma grid_translation_inj: "inj_on (\<lambda>p. grid_translation (fst p) (snd p)) A"
  by (auto simp: inj_on_def grid_translation_def prod_eq_iff)

lemma frame_value:
  assumes "6 \<le> length meshes" and "length vaos = length meshes" and "camera_ok c"
  shows "\<exists>instances calls.
      render_frame intersect f meshes vaos c = Inr (instances, calls) \<and>
      length instances = 6 \<and>
      (\<forall>i \<in> {- 16..<16}. \<forall>j \<in> {- 16..<16}. \<forall>lod < 6.
          count_list (instances ! lod) (grid_translation i j) =
            (if passes intersect f meshes (grid_translation i j) \<and>
                lod = lod_bucket c (grid_translation i j) then 1 else 0)) \<and>
      calls = map (\<lambda>lod. \<lparr>bound_vao = vaos ! lod, mesh_number = lod,
                            index_count = indices_count (meshes ! lod),
                            uploaded = instances ! lod,
                            instance_count = length (instances ! lod)\<rparr>) [0..<6]"
proof -
  let ?tr = "\<lambda>p. grid_translation (fst p) (snd p)"
  let ?grid = "List.product [- 16..15] [- 16..15 :: int]"
  have ne: "meshes \<noteq> []" using assms(1) by auto
  from select_instances_value [OF ne assms(3), of intersect f]
  obtain r where r: "select_instances intersect f meshes c = Inr r" "length r = 6"
    "\<And>b. b < 6 \<Longrightarrow> r ! b = map ?tr
        (filter (\<lambda>p. passes intersect f meshes (?tr p) \<and> lod_bucket c (?tr p) = b) ?grid)"
    by blast
  let ?calls = "map (\<lambda>lod. \<lparr>bound_vao = vaos ! lod, mesh_number = lod,
                            index_count = indices_count (meshes ! lod),
                            uploaded = r ! lod,
                            instance_count = length (r ! lod)\<rparr>) [0..<6]"
  have frame: "render_frame intersect f meshes vaos c = Inr (r, ?calls)"
    by (simp add: render_frame_def r(1) draw_lods_value [OF assms(1,2) r(2)])
  have dist: "distinct ?grid"
    by (simp only: distinct_product distinct_upto)
  have counts: "count_list (r ! lod) (grid_translation i j) =
            (if passes intersect f meshes (grid_translation i j) \<and>
                lod = lod_bucket c (grid_translation i j) then 1 else 0)"
    if "i \<in> {- 16..<16}" "j \<in> {- 16..<16}" "lod < 6" for i j lod
  proof -
    have "i \<in> {- 16..15} \<and> j \<in> {- 16..15}" using that(1,2) by simp
    then have mem: "(i, j) \<in> set ?grid"
      by (simp only: set_product set_upto mem_Times_iff fst_conv snd_conv)
    have "count_list (r ! lod) (?tr (i, j)) =
        (if passes intersect f meshes (?tr (i, j)) \<and> lod_bucket c (?tr (i, j)) = lod then 1 else 0)"
      unfolding r(3) [OF that(3)]
      by (rule count_list_map_filter [OF dist grid_translation_inj mem])
    then show ?thesis by (simp add: eq_commute)
  qed
  show ?thesis
    by (intro exI [of _ r] exI [of _ ?calls] conjI frame r(2) ballI allI impI counts refl)
qed

text \<open>The roundings at the two camera positions the frame is run for.\<close>

lemma binary32_below_one: "binary32 (33554431 / 33554432) = 1"
  by (subst binary32_eval [of "- 1"]) (simp_all add: round_even_def powr_neg_numeral)

lemma start_roundings:
  "binary32 (- (3 / 2)) = - (3 / 2)" "binary32 (9 / 4) = 9 / 4" "binary32 (3 / 2) = 3 / 2"
  using binary32_dyadic [of "- 3" 1] binary32_dyadic [of 9 2] binary32_dyadic [of 3 1]
  by simp_all

lemma near_distance: "float_distance near_camera (grid_translation 1 0) = 1"
  by (simp add: float_distance_glm_length glm_length_def vec3_minus_def grid_translation_def
      near_camera_def float_sqrt_def float_add_def float_mul_def float_sub_def binary32_below_one)

lemma start_distance: "float_distance start_camera (grid_translation 0 3) = 3 / 2"
proof -
  have root: "sqrt (9 / 4) = 3 / 2"
    by (rule real_sqrt_unique) (simp_all add: power2_eq_square)
  show ?thesis
    by (simp add: float_distance_glm_length glm_length_def vec3_minus_def grid_translation_def
      start_camera_def float_sqrt_def float_add_def float_mul_def float_sub_def start_roundings
      root)
qed

text \<open>
  Claim C1 gives a translation that passes the test the bucket
  \<open>min(5, floor(|translation - camera_position| / fixed_lod_value))\<close>. With the camera at
  \<open>(2 ^ - 25, 0, 0)\<close> the translation \<open>(1, 0, 0)\<close> is at the distance \<open>1 - 2 ^ - 25\<close>, whose
  floor is \<open>0\<close>; the loop body puts it into bucket \<open>1\<close>: the difference of the abscissas
  is rounded to the float \<open>1\<close>.
\<close>

theorem bucket_of_the_rounded_distance:
  "place_instance right_half () unit_meshes near_camera 1 0 (replicate 6 []) =
     Inr [[], [\<lparr>vec3_x = 1, vec3_y = 0, vec3_z = 0\<rparr>], [], [], [], []] \<and>
   passes right_half () unit_meshes \<lparr>vec3_x = 1, vec3_y = 0, vec3_z = 0\<rparr> \<and>
   euclidean_distance \<lparr>vec3_x = 1, vec3_y = 0, vec3_z = 0\<rparr> near_camera = 1 - 1 / 2 ^ 25 \<and>
   specified_bucket near_camera \<lparr>vec3_x = 1, vec3_y = 0, vec3_z = 0\<rparr> = 0"
proof -
  have t: "grid_translation 1 0 = \<lparr>vec3_x = 1, vec3_y = 0, vec3_z = 0\<rparr>"
    by (simp add: grid_translation_def)
  have ok: "unit_meshes \<noteq> []" "camera_ok near_camera"
    by (simp_all add: unit_meshes_def camera_ok_def near_camera_def)
  have p: "passes right_half () unit_meshes (grid_translation 1 0)"
    by (simp add: passes_def right_half_def unit_meshes_def vec3_plus_def grid_translation_def
        float_add_def)
  have b: "lod_bucket near_camera (grid_translation 1 0) = 1"
    by (simp add: lod_bucket_def near_distance)
  have six: "replicate 6 [] = [[], [], [], [], [], [] :: vec3 list]"
    by (simp add: numeral_eq_Suc)
  have code: "place_instance right_half () unit_meshes near_camera 1 0 (replicate 6 []) =
     Inr [[], [\<lparr>vec3_x = 1, vec3_y = 0, vec3_z = 0\<rparr>], [], [], [], []]"
    using place_instance_value [OF ok, of 1 0 right_half "()" "replicate 6 []"] p b
    by (simp add: six t)
  have "sqrt ((1 - 1 / 2 ^ 25)\<^sup>2) = 1 - 1 / 2 ^ 25"
    by (simp only: real_sqrt_abs) simp
  then have e: "euclidean_distance \<lparr>vec3_x = 1, vec3_y = 0, vec3_z = 0\<rparr> near_camera = 1 - 1 / 2 ^ 25"
    by (simp add: euclidean_distance_def near_camera_def)
  have s: "specified_bucket near_camera \<lparr>vec3_x = 1, vec3_y = 0, vec3_z = 0\<rparr> = 0"
    unfolding specified_bucket_def e by (simp add: fixed_lod_value_def)
  from code p e s show ?thesis by (simp add: t)
qed

text \<open>
  Claim C1, as amended. With at least six meshes, the frame completes, and for every
  translation \<open>(i, 0, j)\<close> of the grid, \<open>i\<close> and \<open>j\<close> from \<open>-16\<close> below \<open>16\<close>: when the box of
  the first mesh shifted by the translation fails the frustum test, the translation
  occurs in none of the six buckets; when it passes, it occurs exactly once, in the
  bucket \<open>min(5, floor(d))\<close>, and in no other, where \<open>d\<close> is the float that
  \<open>glm::length(translation - camera_position) / fixed_lod_value\<close> evaluates to: the
  square root of the sum of the squares of the three differences, every operation
  rounded. It is not negative, so the bucket is not below \<open>0\<close>. Then each of the six
  buckets is drawn by one call, with the mesh of the same number and the size of the
  bucket as instance count.
\<close>

theorem lod_selection:
  assumes "6 \<le> length meshes" and "length vaos = length meshes" and "camera_ok c"
  shows "\<exists>instances calls.
      render_frame intersect f meshes vaos c = Inr (instances, calls) \<and>
      length instances = 6 \<and>
      (\<forall>i \<in> {- 16..<16}. \<forall>j \<in> {- 16..<16}. \<forall>lod < 6.
          (\<exists>d. d = float_sqrt
                     (float_add
                        (float_add
                           (float_mul (float_sub (real_of_int i) (vec3_x c))
                                      (float_sub (real_of_int i) (vec3_x c)))
                           (float_mul (float_sub 0 (vec3_y c)) (float_sub 0 (vec3_y c))))
                        (float_mul (float_sub (real_of_int j) (vec3_z c))
                                   (float_sub (real_of_int j) (vec3_z c)))) \<and>
               0 \<le> d \<and> lod_bucket c (grid_translation i j) = nat (min 5 \<lfloor>d\<rfloor>)) \<and>
          lod_bucket c (grid_translation i j) < 6 \<and>
          count_list (instances ! lod) (grid_translation i j) =
            (if passes intersect f meshes (grid_translation i j) \<and>
                lod = lod_bucket c (grid_translation i j) then 1 else 0)) \<and>
      calls = map (\<lambda>lod. \<lparr>bound_vao = vaos ! lod, mesh_number = lod,
                            index_count = indices_count (meshes ! lod),
                            uploaded = instances ! lod,
                            instance_count = length (instances ! lod)\<rparr>) [0..<6]"
proof -
  from frame_value [OF assms, of intersect f]
  obtain instances calls where
    frame: "render_frame intersect f meshes vaos c = Inr (instances, calls)"
    and len: "length instances = 6"
    and counts: "\<And>i j lod. i \<in> {- 16..<16} \<Longrightarrow> j \<in> {- 16..<16} \<Longrightarrow> lod < 6 \<Longrightarrow>
          count_list (instances ! lod) (grid_translation i j) =
            (if passes intersect f meshes (grid_translation i j) \<and>
                lod = lod_bucket c (grid_translation i j) then 1 else 0)"
    and calls: "calls = map (\<lambda>lod. \<lparr>bound_vao = vaos ! lod, mesh_number = lod,
                            index_count = indices_count (meshes ! lod),
                            uploaded = instances ! lod,
                            instance_count = length (instances ! lod)\<rparr>) [0..<6]"
    by blast
  have bucket: "\<exists>d. d = float_sqrt
                     (float_add
                        (float_add
                           (float_mul (float_sub (real_of_int i) (vec3_x c))
                                      (float_sub (real_of_int i) (vec3_x c)))
                           (float_mul (float_sub 0 (vec3_y c)) (float_sub 0 (vec3_y c))))
                        (float_mul (float_sub (real_of_int j) (vec3_z c))
                                   (float_sub (real_of_int j) (vec3_z c)))) \<and>
               0 \<le> d \<and> lod_bucket c (grid_translation i j) = nat (min 5 \<lfloor>d\<rfloor>)"
    if "i \<in> {- 16..<16}" "j \<in> {- 16..<16}" for i j
  proof -
    have ij: "- 16 \<le> i" "i \<le> 15" "- 16 \<le> j" "j \<le> 15" using that by simp_all
    have d: "float_distance c (grid_translation i j) = float_sqrt
                     (float_add
                        (float_add
                           (float_mul (float_sub (real_of_int i) (vec3_x c))
                                      (float_sub (real_of_int i) (vec3_x c)))
                           (float_mul (float_sub 0 (vec3_y c)) (float_sub 0 (vec3_y c))))
                        (float_mul (float_sub (real_of_int j) (vec3_z c))
                                   (float_sub (real_of_int j) (vec3_z c))))"
      by (simp add: float_distance_glm_length glm_length_def vec3_minus_def grid_translation_def)
    have pos: "0 \<le> float_distance c (grid_translation i j)"
      using float_distance_in_range [OF assms(3) ij] by simp
    then have "lod_bucket c (grid_translation i j) =
        nat (min 5 \<lfloor>float_distance c (grid_translation i j)\<rfloor>)"
      by (simp add: lod_bucket_def)
    with pos show ?thesis unfolding d by blast
  qed
  have small: "lod_bucket c t < 6" for t
    by (simp add: lod_bucket_def)
  show ?thesis
    by (intro exI [of _ instances] exI [of _ calls] conjI frame len ballI allI impI
        counts calls bucket small)
qed

theorem lod_selection_witness:
  "6 \<le> length unit_meshes \<and> camera_ok start_camera \<and>
   (\<exists>instances calls.
      render_frame right_half () unit_meshes [1, 2, 3, 4, 5, 6] start_camera = Inr (instances, calls) \<and>
      count_list (instances ! 1) (grid_translation 0 3) = 1 \<and>
      count_list (instances ! 0) (grid_translation 0 3) = 0 \<and>
      count_list (instances ! 1) (grid_translation (- 1) 3) = 0 \<and>
      map mesh_number calls = [0..<6])"
proof -
  have h: "6 \<le> length unit_meshes" "length [1, 2, 3, 4, 5, 6 :: nat] = length unit_meshes"
    "camera_ok start_camera"
    by (simp_all add: unit_meshes_def camera_ok_def start_camera_def)
  from lod_selection [OF h, of right_half "()"]
  obtain instances calls where
    frame: "render_frame right_half () unit_meshes [1, 2, 3, 4, 5, 6] start_camera = Inr (instances, calls)"
    and counts: "\<And>i j lod. i \<in> {- 16..<16} \<Longrightarrow> j \<in> {- 16..<16} \<Longrightarrow> lod < 6 \<Longrightarrow>
          count_list (instances ! lod) (grid_translation i j) =
            (if passes right_half () unit_meshes (grid_translation i j) \<and>
                lod = lod_bucket start_camera (grid_translation i j) then 1 else 0)"
    and calls: "calls = map (\<lambda>lod. \<lparr>bound_vao = [1, 2, 3, 4, 5, 6] ! lod, mesh_number = lod,
                            index_count = indices_count (unit_meshes ! lod),
                            uploaded = instances ! lod,
                            instance_count = length (instances ! lod)\<rparr>) [0..<6]"
    by blast
  have b: "lod_bucket start_camera (grid_translation 0 3) = 1"
    by (simp add: lod_bucket_def start_distance)
  have three: "binary32 3 = 3" "binary32 2 = 2"
    using binary32_of_int [of 3] binary32_of_int [of 2] by simp_all
  have p: "passes right_half () unit_meshes (grid_translation 0 3)"
    "\<not> passes right_half () unit_meshes (grid_translation (- 1) 3)"
    using binary32_of_int [of "- 1"]
    by (simp_all add: passes_def right_half_def unit_meshes_def vec3_plus_def grid_translation_def
        float_add_def)
  have c1: "count_list (instances ! 1) (grid_translation 0 3) = 1"
    using counts [of 0 3 1] b p by simp
  have c0: "count_list (instances ! 0) (grid_translation 0 3) = 0"
    using counts [of 0 3 0] b p by simp
  have c2: "count_list (instances ! 1) (grid_translation (- 1) 3) = 0"
    using counts [of "- 1" 3 1] p by simp
  have m: "map mesh_number calls = [0..<6]"
    unfolding calls by (simp add: comp_def)
  show ?thesis
    by (intro conjI h(1,3) exI [of _ instances] exI [of _ calls] frame c1 c0 c2 m)
qed


section \<open>The shader helpers\<close>

lemma create_shader_value:
  "create_shader drv t src g =
     (if compile drv t src \<noteq> GL_TRUE
      then Inl (runtime_error (''Shader compilation failed: '' @ compile_log drv t src))
      else Inr (next_name g),
      g\<lparr>next_name := Suc (next_name g),
        shader_objects := (shader_objects g)(next_name g \<mapsto> compiled drv t src)\<rparr>)"
  by (simp add: create_shader_def glCreateShader_def glShaderSource_def glCompileShader_def
      glGetShaderiv_COMPILE_STATUS_def glGetShaderInfoLog_def compiled_def Let_def)

lemma create_shader_part_000_value:
  "create_shader_part_000 drv t src g =
     (if compile drv t src \<noteq> GL_TRUE
      then Inl (runtime_error (take 1023 (compile_log drv t src)))
      else Inr (next_name g),
      g\<lparr>next_name := Suc (next_name g),
        shader_objects := (shader_objects g)(next_name g \<mapsto> compiled drv t src)\<rparr>)"
  by (simp add: create_shader_part_000_def glCreateShader_def glShaderSource_def glCompileShader_def
      glGetShaderiv_COMPILE_STATUS_def glGetShaderInfoLog_def compiled_def Let_def)

lemma create_program_variadic_two:
  "create_program_variadic drv [v, f] g = create_program drv v f g"
  by (simp add: create_program_variadic_def create_program_def Let_def split_def)


lemma create_program_value:
  "create_program drv a b g =
     (let objects = List.map_filter (shader_objects g) (attached_after g a b)
      in (if link drv objects \<noteq> GL_TRUE
          then Inl (runtime_error (''Program linkage failed: '' @ link_log drv objects))
          else Inr (next_name g),
          g\<lparr>next_name := Suc (next_name g),
            program_objects := (program_objects g)(next_name g \<mapsto>
              \<lparr>attached_shaders = attached_after g a b, link_status = link drv objects\<rparr>)\<rparr>))"
  by (cases "shader_objects g a"; cases "shader_objects g b"; cases "b = a")
     (simp_all add: create_program_def glCreateProgram_def glAttachShader_def glLinkProgram_def
      glGetProgramiv_LINK_STATUS_def glGetProgramInfoLog_def attached_objects_def attached_after_def
      Let_def List.map_filter_simps domIff)


lemma create_program_part_000_value:
  "create_program_part_000 drv a b g =
     (let objects = List.map_filter (shader_objects g) (attached_after g a b)
      in (if link drv objects \<noteq> GL_TRUE
          then Inl (runtime_error (take 1023 (link_log drv objects)))
          else Inr (next_name g),
          g\<lparr>next_name := Suc (next_name g),
            program_objects := (program_objects g)(next_name g \<mapsto>
              \<lparr>attached_shaders = attached_after g a b, link_status = link drv objects\<rparr>)\<rparr>))"
  by (cases "shader_objects g a"; cases "shader_objects g b"; cases "b = a")
     (simp_all add: create_program_part_000_def glCreateProgram_def glAttachShader_def
      glLinkProgram_def glGetProgramiv_LINK_STATUS_def glGetProgramInfoLog_def attached_objects_def
      attached_after_def Let_def List.map_filter_simps domIff)








section \<open>Start-up failures\<close>

lemma build_program_fails:
  assumes "compile drv GL_VERTEX_SHADER vs \<noteq> GL_TRUE \<or>
           compile drv GL_FRAGMENT_SHADER fs \<noteq> GL_TRUE \<or>
           link drv (attach_order h drv vs fs) \<noteq> GL_TRUE"
  shows "\<exists>ex calls. build_program h drv vs fs = (Inl ex, calls) \<and> distinct calls"
proof (cases "h = Part_000")
  case True
  show ?thesis
  proof (cases "compile drv GL_FRAGMENT_SHADER fs \<noteq> GL_TRUE")
    case f: True
    then show ?thesis using True
      by (simp add: build_program_def create_shader_part_000_value)
  next
    case f: False
    show ?thesis
    proof (cases "compile drv GL_VERTEX_SHADER vs \<noteq> GL_TRUE")
      case v: True
      then show ?thesis using True f
        by (simp add: build_program_def create_shader_part_000_value)
    next
      case v: False
      with f assms True have
        "link drv [compiled drv GL_FRAGMENT_SHADER fs, compiled drv GL_VERTEX_SHADER vs] \<noteq> GL_TRUE"
        by (simp add: attach_order_def)
      then show ?thesis using True f v
        by (simp add: build_program_def create_shader_part_000_value create_program_part_000_value
            fresh_context_def attached_after_def List.map_filter_simps Let_def)
    qed
  qed
next
  case False
  then have h: "(case h of Part_000 \<Rightarrow> a | _ \<Rightarrow> b) = b" for a b :: "(exn + nat \<times> gl) \<times> init_call list"
    by (cases h) simp_all
  show ?thesis
  proof (cases "compile drv GL_VERTEX_SHADER vs \<noteq> GL_TRUE")
    case v: True
    then show ?thesis
      by (simp add: build_program_def h create_shader_value)
  next
    case v: False
    show ?thesis
    proof (cases "compile drv GL_FRAGMENT_SHADER fs \<noteq> GL_TRUE")
      case f: True
      then show ?thesis using v
        by (simp add: build_program_def h create_shader_value)
    next
      case f: False
      with v assms False have
        "link drv [compiled drv GL_VERTEX_SHADER vs, compiled drv GL_FRAGMENT_SHADER fs] \<noteq> GL_TRUE"
        by (simp add: attach_order_def)
      then show ?thesis using f v
        by (simp add: build_program_def h create_shader_value create_program_value
            create_program_variadic_two fresh_context_def attached_after_def
            List.map_filter_simps Let_def)
    qed
  qed
qed

lemma build_program_calls:
  "set (snd (build_program h drv vs fs)) \<subseteq>
     {Call_create_shader GL_VERTEX_SHADER, Call_create_shader GL_FRAGMENT_SHADER, Call_create_program}"
  by (cases h)
     (auto simp: build_program_def split: prod.splits sum.splits if_splits)

lemma startup_fails:
  assumes "SDL_Init_result e \<noteq> 0 \<or> SDL_CreateWindow_result e = 0 \<or>
           SDL_GL_CreateContext_result e = 0 \<or> glewInit_result e \<noteq> GLEW_NO_ERROR \<or>
           \<not> GLEW_VERSION_3_3 e \<or>
           compile (driver e) GL_VERTEX_SHADER vs \<noteq> GL_TRUE \<or>
           compile (driver e) GL_FRAGMENT_SHADER fs \<noteq> GL_TRUE \<or>
           link (driver e) (attach_order h (driver e) vs fs) \<noteq> GL_TRUE"
  shows "\<exists>ex calls. startup h vs fs e = (Inl ex, calls) \<and> distinct calls"
proof (cases "SDL_Init_result e \<noteq> 0 \<or> SDL_CreateWindow_result e = 0 \<or>
           SDL_GL_CreateContext_result e = 0 \<or> glewInit_result e \<noteq> GLEW_NO_ERROR \<or>
           \<not> GLEW_VERSION_3_3 e")
  case True
  then show ?thesis by (auto simp: startup_def)
next
  case False
  with assms have "compile (driver e) GL_VERTEX_SHADER vs \<noteq> GL_TRUE \<or>
           compile (driver e) GL_FRAGMENT_SHADER fs \<noteq> GL_TRUE \<or>
           link (driver e) (attach_order h (driver e) vs fs) \<noteq> GL_TRUE"
    by blast
  from build_program_fails [OF this] obtain ex calls where
    b: "build_program h (driver e) vs fs = (Inl ex, calls)" "distinct calls"
    by blast
  have "set calls \<subseteq>
     {Call_create_shader GL_VERTEX_SHADER, Call_create_shader GL_FRAGMENT_SHADER, Call_create_program}"
    using build_program_calls [of h "driver e" vs fs] b(1) by simp
  then have "distinct ([Call_SDL_Init, Call_SDL_CreateWindow, Call_SDL_GL_CreateContext, Call_glewInit]
                 @ calls)"
    using b(2) by auto
  with False b(1) show ?thesis by (simp add: startup_def)
qed

text \<open>
  Claim C4. In every program, whichever of the start-up checks fails (\<open>SDL_Init\<close>
  returning nonzero, no window, no OpenGL context, \<open>glewInit\<close> returning an error, OpenGL
  3.3 missing, a compile status or the link status other than \<open>GL_TRUE\<close>), the start-up
  ends by an exception; \<open>main\<close> then writes the message of that exception to \<open>std::cerr\<close>
  and returns \<open>EXIT_FAILURE\<close>, which is not zero; and no start-up call was made twice.
\<close>

theorem init_failure_exits:
  assumes "SDL_Init_result e \<noteq> 0 \<or> SDL_CreateWindow_result e = 0 \<or>
           SDL_GL_CreateContext_result e = 0 \<or> glewInit_result e \<noteq> GLEW_NO_ERROR \<or>
           \<not> GLEW_VERSION_3_3 e \<or>
           compile (driver e) GL_VERTEX_SHADER vs \<noteq> GL_TRUE \<or>
           compile (driver e) GL_FRAGMENT_SHADER fs \<noteq> GL_TRUE \<or>
           link (driver e) (attach_order h (driver e) vs fs) \<noteq> GL_TRUE"
  shows "\<exists>ex calls. startup h vs fs e = (Inl ex, calls) \<and>
           main h vs fs e rest = \<lparr>cerr = [what ex], exit_code = EXIT_FAILURE, calls_made = calls\<rparr> \<and>
           EXIT_FAILURE \<noteq> 0 \<and> distinct calls"
proof -
  from startup_fails [OF assms] obtain ex calls where
    s: "startup h vs fs e = (Inl ex, calls)" "distinct calls"
    by blast
  then have "main h vs fs e rest = \<lparr>cerr = [what ex], exit_code = EXIT_FAILURE, calls_made = calls\<rparr>"
    by (simp add: main_def)
  with s show ?thesis by (simp add: EXIT_FAILURE_def)
qed

theorem init_failure_exits_witness:
  "SDL_Init_result (good_env\<lparr>SDL_Init_result := - 1\<rparr>) \<noteq> 0 \<and>
   main Common ''v'' ''f'' (good_env\<lparr>SDL_Init_result := - 1\<rparr>) (\<lambda>program g. Inr ()) =
     \<lparr>cerr = [''SDL_Init: no display''], exit_code = 1, calls_made = [Call_SDL_Init]\<rparr>"
proof -
  let ?e = "good_env\<lparr>SDL_Init_result := - 1\<rparr>"
  have h: "SDL_Init_result ?e \<noteq> 0" by simp
  then have "SDL_Init_result ?e \<noteq> 0 \<or> SDL_CreateWindow_result ?e = 0 \<or>
           SDL_GL_CreateContext_result ?e = 0 \<or> glewInit_result ?e \<noteq> GLEW_NO_ERROR \<or>
           \<not> GLEW_VERSION_3_3 ?e \<or>
           compile (driver ?e) GL_VERTEX_SHADER ''v'' \<noteq> GL_TRUE \<or>
           compile (driver ?e) GL_FRAGMENT_SHADER ''f'' \<noteq> GL_TRUE \<or>
           link (driver ?e) (attach_order Common (driver ?e) ''v'' ''f'') \<noteq> GL_TRUE"
    by (rule disjI1)
  from init_failure_exits [OF this, of "\<lambda>program g. Inr ()"] obtain ex calls where
    s: "startup Common ''v'' ''f'' ?e = (Inl ex, calls)"
    and m: "main Common ''v'' ''f'' ?e (\<lambda>program g. Inr ()) =
      \<lparr>cerr = [what ex], exit_code = EXIT_FAILURE, calls_made = calls\<rparr>"
    by blast
  have "startup Common ''v'' ''f'' ?e = (Inl (runtime_error ''SDL_Init: no display''), [Call_SDL_Init])"
    by (simp add: startup_def sdl2_fail_def good_env_def)
  with s have "what ex = ''SDL_Init: no display''" "calls = [Call_SDL_Init]"
    by auto
  with m h show ?thesis by (simp add: EXIT_FAILURE_def)
qed

end
